theory Spec2Isabelle
  imports Main "HOL-Library.Word" "HOL-Library.Multiset"
begin

section \<open>The ClickHouse outlet worker of akvorado (outlet/clickhouse)\<close>

text \<open>
  The development embeds \<^verbatim>\<open>outlet/clickhouse/worker.go\<close> and the part of
  \<^verbatim>\<open>outlet/clickhouse/root.go\<close> it uses. Go's \<^verbatim>\<open>int\<close> and \<^verbatim>\<open>uint\<close> are 64-bit
  words (the signed reading is \<open>sint\<close>, the order on words is the unsigned one),
  \<^verbatim>\<open>time.Duration\<close> is a signed 64-bit count of nanoseconds and a \<^verbatim>\<open>time.Time\<close> is
  the number of nanoseconds since Go's zero time (January 1, year 1, UTC); the
  monotonic reading of a \<^verbatim>\<open>time.Time\<close> is not modelled.
  The retry counter \<^verbatim>\<open>attempts\<close> and \<^verbatim>\<open>maxRetries\<close> are integers without a width:
  the counter starts at 0 and grows by one per attempt.

  What the worker calls and is not among the sources is a parameter: the operations
  of \<^verbatim>\<open>schema.FlowMessage\<close>, the constant \<^verbatim>\<open>minimumBatchSizeDivider\<close> (the argument
  \<open>K\<close>; Go rejects a constant divisor that is zero), and the network, the context and
  \<^verbatim>\<open>rand.Perm\<close>, which answer through an environment. A loop that may not end takes a
  bound on its iterations and returns \<open>None\<close> when it has not ended within it. Log
  messages are left out.
\<close>

subsection \<open>Go values\<close>

type_synonym go_int = "64 word"
type_synonym go_uint = "64 word"
type_synonym Duration = "64 word"
type_synonym Time = int

definition maxDuration :: int where
  "maxDuration = 2 ^ 63 - 1"

definition minDuration :: int where
  "minDuration = - (2 ^ 63)"

text \<open>
  \<^verbatim>\<open>Time.Sub\<close> of the standard library: the duration \<open>t - u\<close>, and the maximum
  (or minimum) duration when the difference does not fit.
\<close>

definition time_Sub :: "Time \<Rightarrow> Time \<Rightarrow> Duration" where
  "time_Sub t u = word_of_int (max minDuration (min maxDuration (t - u)))"

definition time_IsZero :: "Time \<Rightarrow> bool" where
  "time_IsZero t \<longleftrightarrow> t = 0"

text \<open>The Unix epoch, in nanoseconds since the zero time (62135596800 seconds).\<close>

definition unixEpoch :: Time where
  "unixEpoch = 62135596800 * 1000000000"

text \<open>\<^verbatim>\<open>Duration.Milliseconds\<close>: integer division that truncates towards zero.\<close>

definition Milliseconds :: "Duration \<Rightarrow> 64 word" where
  "Milliseconds d =
     word_of_int (sgn (sint d) * (\<bar>sint d\<bar> div 1000000))"

definition digit10 :: "nat \<Rightarrow> char" where
  "digit10 n = char_of (48 + n)"

function FormatUint10 :: "nat \<Rightarrow> string" where
  "FormatUint10 n =
     (if n < 10 then [digit10 n] else FormatUint10 (n div 10) @ [digit10 (n mod 10)])"
  by pat_completeness auto
termination
  by (relation "measure id") auto

text \<open>The number that a string of decimal digits denotes.\<close>

definition decimalValue :: "string \<Rightarrow> nat" where
  "decimalValue s = foldl (\<lambda>acc ch. 10 * acc + (of_char ch - 48)) 0 s"

subsection \<open>Data\<close>

datatype WorkerStatus = WorkerStatusOK | WorkerStatusOverloaded | WorkerStatusUnderloaded

datatype go_error =
    IOError nat
  | MaxRetriesExceeded int string
  | ContextErr

record Configuration =
  MaximumBatchSize :: go_uint
  MaximumWaitTime :: Duration

record Setting =
  Key :: string
  Value :: string
  Important :: bool

text \<open>
  What \<^verbatim>\<open>NewWorker\<close> reads from a \<^verbatim>\<open>clickhousedb.Component\<close>: the server list of
  \<^verbatim>\<open>ChGoOptions()\<close> and \<^verbatim>\<open>MaxRetries()\<close>.
\<close>

record clickhousedb =
  db_servers :: "string list"
  db_maxRetries :: int

record destinationConfig =
  dc_name :: string
  dc_db :: clickhousedb
  dc_config :: Configuration

text \<open>
  The counters and observations of \<^verbatim>\<open>metrics.go\<close>. A labelled counter is the list of
  the labels it was incremented with, a histogram or summary the list of what was
  observed (the duration of an insert is not kept, only that it was observed).
\<close>

record metrics =
  m_flows :: "(string \<times> go_int) list"
  m_waitTime :: "Duration list"
  m_insertTime :: "string list"
  m_overloaded :: nat
  m_underloaded :: nat
  m_errors :: "(string \<times> string) list"
  m_retriesExceeded :: "string list"

record realComponent =
  c_destinations :: "destinationConfig list"
  c_schemaHash :: string
  c_metrics :: metrics

text \<open>
  What a destination writer does on the network and asks of the batch, in order:
  a ping, a dial and a send with their outcome (\<open>None\<close> is success), a close, a call
  of \<^verbatim>\<open>ClickHouseProtoInput\<close>, a backoff sleep.
\<close>

datatype 'p io_event =
    EvPing string "go_error option"
  | EvDial string "go_error option"
  | EvClose string
  | EvProtoInput
  | EvDo string string 'p 'p "Setting list" "go_error option"
  | EvBackOff

text \<open>
  \<open>dw_conn\<close> is the live client, named by the address it was dialled at;
  \<open>dw_trace\<close> is the history of the writer's events (not a field of the source: it
  makes I/O observable).
\<close>

record 'p destinationWriter =
  dw_name :: string
  dw_conn :: "string option"
  dw_servers :: "string list"
  dw_options_Address :: string
  dw_asyncSettings :: "Setting list"
  dw_config :: Configuration
  dw_maxRetries :: int
  dw_trace :: "'p io_event list"

text \<open>
  \<open>w_flushCalls\<close> counts the calls of \<^verbatim>\<open>Flush\<close> (not a field of the source: it
  makes a flush observable).
\<close>

record ('b, 'p) realWorker =
  w_c :: realComponent
  w_bf :: 'b
  w_last :: Time
  w_destWriters :: "'p destinationWriter list"
  w_flushCalls :: nat

text \<open>
  \<^verbatim>\<open>schema.FlowMessage\<close> is not among the sources: its four operations used by the
  worker are parameters.
\<close>

record ('b, 'p) FlowMessageOps =
  Finalize :: "'b \<Rightarrow> 'b"
  FlowCount :: "'b \<Rightarrow> go_int"
  ClickHouseProtoInput :: "'b \<Rightarrow> 'p"
  Clear :: "'b \<Rightarrow> 'b"

text \<open>
  The environment of one flush. Each answer may depend on the destination's name and
  on everything the writer has done so far: the outcome of a dial, a ping and a send
  at an address (\<open>None\<close> is success, \<open>Some n\<close> an error), whether the context is
  done, and the result of \<^verbatim>\<open>rand.Perm\<close>.
\<close>

record 'p netenv =
  dialRes :: "string \<Rightarrow> 'p io_event list \<Rightarrow> string \<Rightarrow> nat option"
  pingRes :: "string \<Rightarrow> 'p io_event list \<Rightarrow> string \<Rightarrow> nat option"
  doRes :: "string \<Rightarrow> 'p io_event list \<Rightarrow> string \<Rightarrow> nat option"
  ctxDone :: "string \<Rightarrow> 'p io_event list \<Rightarrow> bool"
  permRes :: "string \<Rightarrow> 'p io_event list \<Rightarrow> nat \<Rightarrow> nat list"

text \<open>A call returns, or the goroutine panics.\<close>

datatype 'a outcome = Returned 'a | Panicked

subsection \<open>root.go\<close>

definition primaryConfig :: "realComponent \<Rightarrow> Configuration" where
  "primaryConfig c =
     (if length (c_destinations c) = 0
      then \<lparr>MaximumBatchSize = 0, MaximumWaitTime = 0\<rparr>
      else dc_config (c_destinations c ! 0))"

subsection \<open>worker.go\<close>

definition asyncSettingsOf :: "Configuration \<Rightarrow> Setting list" where
  "asyncSettingsOf cfg =
     [\<lparr>Key = ''async_insert'', Value = ''1'', Important = True\<rparr>,
      \<lparr>Key = ''wait_for_async_insert'', Value = ''1'', Important = True\<rparr>,
      \<lparr>Key = ''async_insert_busy_timeout_max_ms'',
       Value = FormatUint10 (unat (Milliseconds (MaximumWaitTime cfg))),
       Important = False\<rparr>]"

definition newDestinationWriter :: "destinationConfig \<Rightarrow> 'p destinationWriter" where
  "newDestinationWriter dest =
     \<lparr>dw_name = dc_name dest,
      dw_conn = None,
      dw_servers = db_servers (dc_db dest),
      dw_options_Address = [],
      dw_asyncSettings = asyncSettingsOf (dc_config dest),
      dw_config = dc_config dest,
      dw_maxRetries = db_maxRetries (dc_db dest),
      dw_trace = []\<rparr>"

definition NewWorker :: "realComponent \<Rightarrow> 'b \<Rightarrow> ('b, 'p) realWorker" where
  "NewWorker c bf =
     \<lparr>w_c = c, w_bf = bf, w_last = 0,
      w_destWriters = map newDestinationWriter (c_destinations c),
      w_flushCalls = 0\<rparr>"

definition emit :: "'p io_event \<Rightarrow> 'p destinationWriter \<Rightarrow> 'p destinationWriter" where
  "emit e dw = dw\<lparr>dw_trace := dw_trace dw @ [e]\<rparr>"

text \<open>
  The loop of \<^verbatim>\<open>connectDestination\<close> over the indices of \<^verbatim>\<open>rand.Perm\<close>, with the
  last error seen so far.
\<close>

fun tryServers ::
  "'p netenv \<Rightarrow> nat list \<Rightarrow> go_error option \<Rightarrow> 'p destinationWriter
     \<Rightarrow> go_error option \<times> 'p destinationWriter" where
  "tryServers env [] lastErr dw = (lastErr, dw)"
| "tryServers env (idx # rest) lastErr dw =
     (let addr = dw_servers dw ! idx;
          dw1 = dw\<lparr>dw_options_Address := addr\<rparr>
      in case dialRes env (dw_name dw1) (dw_trace dw1) addr of
           Some e \<Rightarrow>
             tryServers env rest (Some (IOError e)) (emit (EvDial addr (Some (IOError e))) dw1)
         | None \<Rightarrow>
             (let dw2 = emit (EvDial addr None) dw1
              in case pingRes env (dw_name dw2) (dw_trace dw2) addr of
                   Some e \<Rightarrow>
                     tryServers env rest (Some (IOError e))
                       (emit (EvClose addr) (emit (EvPing addr (Some (IOError e))) dw2))
                 | None \<Rightarrow>
                     (None, (emit (EvPing addr None) dw2)\<lparr>dw_conn := Some addr\<rparr>)))"

definition connectDestination ::
  "'p netenv \<Rightarrow> 'p destinationWriter \<Rightarrow> go_error option \<times> 'p destinationWriter" where
  "connectDestination env dw =
     (let fresh = (\<lambda>dw0. tryServers env
            (permRes env (dw_name dw0) (dw_trace dw0) (length (dw_servers dw0))) None dw0)
      in case dw_conn dw of
           Some a \<Rightarrow>
             (case pingRes env (dw_name dw) (dw_trace dw) a of
                None \<Rightarrow> (None, emit (EvPing a None) dw)
              | Some e \<Rightarrow>
                  fresh ((emit (EvClose a) (emit (EvPing a (Some (IOError e))) dw))
                           \<lparr>dw_conn := None\<rparr>))
         | None \<Rightarrow> fresh dw)"

text \<open>
  The closure given to \<^verbatim>\<open>backoff.Retry\<close>: one attempt. Its state is the counter
  \<^verbatim>\<open>attempts\<close>, the writer and the metrics.
\<close>

datatype op_result = OpOK | OpErr go_error | OpPermanent go_error | OpPanic

definition operation ::
  "('b, 'p) FlowMessageOps \<Rightarrow> 'p netenv \<Rightarrow> string \<Rightarrow> 'b \<Rightarrow> Setting list \<Rightarrow> int
     \<Rightarrow> int \<times> 'p destinationWriter \<times> metrics
     \<Rightarrow> op_result \<times> int \<times> 'p destinationWriter \<times> metrics" where
  "operation ops env hash bf settings maxAttempts st =
     (case st of (attempts0, dw, m) \<Rightarrow>
        let attempts = attempts0 + 1 in
        if maxAttempts > 0 \<and> attempts > maxAttempts
        then (OpPermanent (MaxRetriesExceeded maxAttempts (dw_name dw)), attempts, dw,
              m\<lparr>m_retriesExceeded := m_retriesExceeded m @ [dw_name dw]\<rparr>)
        else
          (case connectDestination env dw of
             (Some err, dw1) \<Rightarrow>
               (OpErr err, attempts, dw1,
                m\<lparr>m_errors := m_errors m @ [(dw_name dw1, ''connect'')]\<rparr>)
           | (None, dw1) \<Rightarrow>
               (let body = ClickHouseProtoInput ops bf;
                    dw2 = emit EvProtoInput dw1;
                    input = ClickHouseProtoInput ops bf;
                    dw3 = emit EvProtoInput dw2;
                    table = ''flows_'' @ hash @ ''_raw''
                in case dw_conn dw3 of
                     None \<Rightarrow> (OpPanic, attempts, dw3, m)
                   | Some a \<Rightarrow>
                       (case doRes env (dw_name dw3) (dw_trace dw3) a of
                          Some e \<Rightarrow>
                            (OpErr (IOError e), attempts,
                             (emit (EvClose a)
                                (emit (EvDo a table body input settings (Some (IOError e))) dw3))
                               \<lparr>dw_conn := None\<rparr>,
                             m\<lparr>m_errors := m_errors m @ [(dw_name dw3, ''send'')]\<rparr>)
                        | None \<Rightarrow>
                            (OpOK, attempts,
                             emit (EvDo a table body input settings None) dw3,
                             m\<lparr>m_insertTime := m_insertTime m @ [dw_name dw3],
                               m_flows := m_flows m @ [(dw_name dw3, FlowCount ops bf)]\<rparr>)))))"

text \<open>
  \<^verbatim>\<open>backoff.Retry\<close> with \<^verbatim>\<open>backoff.WithContext\<close> and no limit on the elapsed time
  (github.com/cenkalti/backoff/v4): call the operation; return on success and on a
  permanent error; otherwise return the context's error when the context is done,
  before or during the sleep, and call the operation again after it. The first
  argument bounds the number of calls of the operation: \<open>None\<close> is a loop that has not
  returned within the bound.
\<close>

fun Retry ::
  "nat \<Rightarrow> ('b, 'p) FlowMessageOps \<Rightarrow> 'p netenv \<Rightarrow> string \<Rightarrow> 'b \<Rightarrow> Setting list \<Rightarrow> int
     \<Rightarrow> int \<times> 'p destinationWriter \<times> metrics
     \<Rightarrow> (go_error option \<times> int \<times> 'p destinationWriter \<times> metrics) outcome option" where
  "Retry 0 ops env hash bf settings maxAttempts st = None"
| "Retry (Suc fuel) ops env hash bf settings maxAttempts st =
     (case operation ops env hash bf settings maxAttempts st of
        (OpOK, st1) \<Rightarrow> Some (Returned (None, st1))
      | (OpPermanent err, st1) \<Rightarrow> Some (Returned (Some err, st1))
      | (OpPanic, st1) \<Rightarrow> Some Panicked
      | (OpErr err, attempts, dw1, m1) \<Rightarrow>
          if ctxDone env (dw_name dw1) (dw_trace dw1)
          then Some (Returned (Some ContextErr, attempts, dw1, m1))
          else
            (let dw2 = emit EvBackOff dw1
             in if ctxDone env (dw_name dw2) (dw_trace dw2)
                then Some (Returned (Some ContextErr, attempts, dw2, m1))
                else Retry fuel ops env hash bf settings maxAttempts (attempts, dw2, m1)))"

definition flushSettings ::
  "go_uint \<Rightarrow> ('b, 'p) FlowMessageOps \<Rightarrow> 'b \<Rightarrow> 'p destinationWriter \<Rightarrow> Setting list" where
  "flushSettings K ops bf dw =
     (if FlowCount ops bf \<le> MaximumBatchSize (dw_config dw) div K
      then dw_asyncSettings dw else [])"

definition flushSingleDestination ::
  "nat \<Rightarrow> go_uint \<Rightarrow> ('b, 'p) FlowMessageOps \<Rightarrow> 'p netenv \<Rightarrow> string \<Rightarrow> 'b
     \<Rightarrow> 'p destinationWriter \<Rightarrow> metrics
     \<Rightarrow> (go_error option \<times> int \<times> 'p destinationWriter \<times> metrics) outcome option" where
  "flushSingleDestination fuel K ops env hash bf dw m =
     (let settings = flushSettings K ops bf dw;
          attempts = 0;
          maxAttempts = (if dw_maxRetries dw = 0 then - 1 else dw_maxRetries dw)
      in Retry fuel ops env hash bf settings maxAttempts (attempts, dw, m))"

text \<open>
  The tasks of \<^verbatim>\<open>Flush\<close>, one per writer. Each task owns its writer, reads the batch
  and increments shared counters, so the tasks are run one after the other, in the
  order of the list; the result holds every writer as its task left it, the errors
  the tasks returned, and the metrics. \<open>None\<close> is a task that has not settled.
\<close>

fun flushAll ::
  "nat \<Rightarrow> go_uint \<Rightarrow> ('b, 'p) FlowMessageOps \<Rightarrow> 'p netenv \<Rightarrow> string \<Rightarrow> 'b
     \<Rightarrow> 'p destinationWriter list \<Rightarrow> metrics
     \<Rightarrow> (go_error option list \<times> 'p destinationWriter list \<times> metrics) outcome option" where
  "flushAll fuel K ops env hash bf [] m = Some (Returned ([], [], m))"
| "flushAll fuel K ops env hash bf (dw # dws) m =
     (case flushSingleDestination fuel K ops env hash bf dw m of
        None \<Rightarrow> None
      | Some Panicked \<Rightarrow> Some Panicked
      | Some (Returned (err, attempts, dw1, m1)) \<Rightarrow>
          (case flushAll fuel K ops env hash bf dws m1 of
             None \<Rightarrow> None
           | Some Panicked \<Rightarrow> Some Panicked
           | Some (Returned (errs, dws1, m2)) \<Rightarrow> Some (Returned (err # errs, dw1 # dws1, m2))))"

definition Flush ::
  "nat \<Rightarrow> go_uint \<Rightarrow> ('b, 'p) FlowMessageOps \<Rightarrow> 'p netenv \<Rightarrow> ('b, 'p) realWorker
     \<Rightarrow> ('b, 'p) realWorker outcome option" where
  "Flush fuel K ops env w0 =
     (let w = w0\<lparr>w_flushCalls := w_flushCalls w0 + 1\<rparr>
      in if FlowCount ops (w_bf w) = 0 then Some (Returned w)
      else
        (case flushAll fuel K ops env (c_schemaHash (w_c w)) (w_bf w) (w_destWriters w)
                (c_metrics (w_c w)) of
           None \<Rightarrow> None
         | Some Panicked \<Rightarrow> Some Panicked
         | Some (Returned (errs, dws1, m1)) \<Rightarrow>
             Some (Returned (w\<lparr>w_c := (w_c w)\<lparr>c_metrics := m1\<rparr>,
                               w_destWriters := dws1,
                               w_bf := Clear ops (w_bf w)\<rparr>))))"

definition flushTriggered :: "go_int \<Rightarrow> Duration \<Rightarrow> Configuration \<Rightarrow> bool" where
  "flushTriggered batchSize waitTime cfg \<longleftrightarrow>
     sint (MaximumBatchSize cfg) \<le> sint batchSize \<or> sint (MaximumWaitTime cfg) \<le> sint waitTime"

definition recordWaitTime :: "Time \<Rightarrow> ('b, 'p) realWorker \<Rightarrow> ('b, 'p) realWorker" where
  "recordWaitTime now w =
     (if \<not> time_IsZero (w_last w)
      then w\<lparr>w_c := (w_c w)\<lparr>c_metrics := (c_metrics (w_c w))
                \<lparr>m_waitTime := m_waitTime (c_metrics (w_c w)) @ [time_Sub now (w_last w)]\<rparr>\<rparr>\<rparr>
      else w)"

definition incOverloaded :: "('b, 'p) realWorker \<Rightarrow> ('b, 'p) realWorker" where
  "incOverloaded w =
     w\<lparr>w_c := (w_c w)\<lparr>c_metrics := (c_metrics (w_c w))
          \<lparr>m_overloaded := m_overloaded (c_metrics (w_c w)) + 1\<rparr>\<rparr>\<rparr>"

definition incUnderloaded :: "('b, 'p) realWorker \<Rightarrow> ('b, 'p) realWorker" where
  "incUnderloaded w =
     w\<lparr>w_c := (w_c w)\<lparr>c_metrics := (c_metrics (w_c w))
          \<lparr>m_underloaded := m_underloaded (c_metrics (w_c w)) + 1\<rparr>\<rparr>\<rparr>"

text \<open>
  \<open>now\<close> and \<open>now2\<close> are the two readings of \<^verbatim>\<open>time.Now()\<close>, before the
  decision and after the flush.
\<close>

definition FinalizeAndSend ::
  "nat \<Rightarrow> go_uint \<Rightarrow> ('b, 'p) FlowMessageOps \<Rightarrow> 'p netenv \<Rightarrow> Time \<Rightarrow> Time
     \<Rightarrow> ('b, 'p) realWorker \<Rightarrow> (WorkerStatus \<times> ('b, 'p) realWorker) outcome option" where
  "FinalizeAndSend fuel K ops env now now2 w0 =
     (let w = w0\<lparr>w_bf := Finalize ops (w_bf w0)\<rparr>;
          batchSize = FlowCount ops (w_bf w);
          waitTime = time_Sub now (w_last w);
          cfg = primaryConfig (w_c w)
      in if flushTriggered batchSize waitTime cfg
         then
           (case Flush fuel K ops env (recordWaitTime now w) of
              None \<Rightarrow> None
            | Some Panicked \<Rightarrow> Some Panicked
            | Some (Returned w2) \<Rightarrow>
                (let w3 = w2\<lparr>w_last := now2\<rparr>
                 in if MaximumBatchSize cfg \<le> batchSize
                    then Some (Returned (WorkerStatusOverloaded, incOverloaded w3))
                    else if batchSize \<le> MaximumBatchSize cfg div K
                    then Some (Returned (WorkerStatusUnderloaded, incUnderloaded w3))
                    else Some (Returned (WorkerStatusOK, w3))))
         else Some (Returned (WorkerStatusOK, w)))"

subsection \<open>Environments and traces\<close>

text \<open>
  \<^verbatim>\<open>rand.Perm(n)\<close> returns a permutation of the integers below \<open>n\<close>.
\<close>

definition permOK :: "'p netenv \<Rightarrow> bool" where
  "permOK env \<longleftrightarrow>
     (\<forall>n h k. distinct (permRes env n h k) \<and> set (permRes env n h k) = {0..<k})"

text \<open>The events of connecting: ping, dial and close.\<close>

fun isConnEv :: "'p io_event \<Rightarrow> bool" where
  "isConnEv (EvPing a r) = True"
| "isConnEv (EvDial a r) = True"
| "isConnEv (EvClose a) = True"
| "isConnEv e = False"

text \<open>
  \<open>grows good dw dw'\<close>: the writer \<open>dw'\<close> is \<open>dw\<close> after more events, all of them
  \<open>good\<close>; its name, servers, settings, configuration and retry limit are the same.
\<close>

definition grows ::
  "('p io_event \<Rightarrow> bool) \<Rightarrow> 'p destinationWriter \<Rightarrow> 'p destinationWriter \<Rightarrow> bool" where
  "grows good dw dw' \<longleftrightarrow>
     dw_name dw' = dw_name dw \<and> dw_servers dw' = dw_servers dw
     \<and> dw_asyncSettings dw' = dw_asyncSettings dw \<and> dw_config dw' = dw_config dw
     \<and> dw_maxRetries dw' = dw_maxRetries dw
     \<and> (\<exists>evs. dw_trace dw' = dw_trace dw @ evs \<and> list_all good evs)"

text \<open>
  An event of a flush of the payload \<open>p\<close> to \<open>table\<close> with the settings \<open>s\<close>: every
  send carries them.
\<close>

fun flushEv :: "'p \<Rightarrow> string \<Rightarrow> Setting list \<Rightarrow> 'p io_event \<Rightarrow> bool" where
  "flushEv p table s (EvDo a t b i st r) \<longleftrightarrow> t = table \<and> b = p \<and> i = p \<and> st = s"
| "flushEv p table s e \<longleftrightarrow> True"

text \<open>The guard of an attempt: the limit is positive and this attempt is beyond it.\<close>

definition exhausted :: "int \<Rightarrow> int \<Rightarrow> bool" where
  "exhausted maxA a \<longleftrightarrow> maxA > 0 \<and> a + 1 > maxA"

text \<open>The sends in a trace, and the calls of \<^verbatim>\<open>ClickHouseProtoInput\<close>.\<close>

fun isDoEv :: "'p io_event \<Rightarrow> bool" where
  "isDoEv (EvDo a t b i s r) = True"
| "isDoEv e = False"

definition sends :: "'p io_event list \<Rightarrow> nat" where
  "sends evs = length (filter isDoEv evs)"

definition protoReads :: "'p io_event list \<Rightarrow> nat" where
  "protoReads evs = length (filter (\<lambda>e. e = EvProtoInput) evs)"

text \<open>What one task of a flush does to its writer.\<close>

definition sentBy ::
  "'p \<Rightarrow> string \<Rightarrow> 'p destinationWriter \<Rightarrow> 'p destinationWriter \<Rightarrow> bool" where
  "sentBy p table dw dw' \<longleftrightarrow>
     (\<exists>evs. dw_trace dw' = dw_trace dw @ evs
        \<and> (\<forall>a t b i s r. EvDo a t b i s r \<in> set evs \<longrightarrow> t = table \<and> b = p \<and> i = p)
        \<and> protoReads evs = 2 * sends evs)"

text \<open>
  A destination whose sends always fail; a destination that always answers; a context
  that is never done; the attempts recorded in the metrics (each attempt that is not
  beyond the limit counts one error or one insert); the sleeps in a trace.
\<close>

definition sendsFail :: "'p netenv \<Rightarrow> string \<Rightarrow> bool" where
  "sendsFail env n \<longleftrightarrow> (\<forall>h a. doRes env n h a \<noteq> None)"

definition destOK :: "'p netenv \<Rightarrow> string \<Rightarrow> bool" where
  "destOK env n \<longleftrightarrow>
     (\<forall>h a. dialRes env n h a = None \<and> pingRes env n h a = None \<and> doRes env n h a = None)"

definition ctxAlive :: "'p netenv \<Rightarrow> string \<Rightarrow> bool" where
  "ctxAlive env n \<longleftrightarrow> (\<forall>h. \<not> ctxDone env n h)"

definition attemptsMade :: "metrics \<Rightarrow> nat" where
  "attemptsMade m = length (m_errors m) + length (m_insertTime m)"

definition backoffs :: "'p io_event list \<Rightarrow> nat" where
  "backoffs evs = length (filter (\<lambda>e. e = EvBackOff) evs)"

subsection \<open>The connect algorithm in the words of the spec\<close>

text \<open>
  This definition follows the spec, not the source: the candidate servers are attempted
  in turn, each attempt a dial followed by a liveness probe; the first server that
  passes both is connected and ends the attempts. \<open>connectSpec env n h order\<close> is the
  list of the attempts made on the servers \<open>order\<close>, from the history \<open>h\<close>, each with
  its outcome. The result is the error of the last attempt, the live connection is
  the server of a last attempt that connected, and each attempt leaves its events.
\<close>

datatype attempt = DialFailed go_error | PingFailed go_error | Connected

fun attemptEvents :: "string \<Rightarrow> attempt \<Rightarrow> 'p io_event list" where
  "attemptEvents a (DialFailed e) = [EvDial a (Some e)]"
| "attemptEvents a (PingFailed e) = [EvDial a None, EvPing a (Some e), EvClose a]"
| "attemptEvents a Connected = [EvDial a None, EvPing a None]"

fun connectSpec ::
  "'p netenv \<Rightarrow> string \<Rightarrow> 'p io_event list \<Rightarrow> string list \<Rightarrow> (string \<times> attempt) list" where
  "connectSpec env n h [] = []"
| "connectSpec env n h (a # as) =
     (case dialRes env n h a of
        Some e \<Rightarrow>
          (a, DialFailed (IOError e))
            # connectSpec env n (h @ attemptEvents a (DialFailed (IOError e))) as
      | None \<Rightarrow>
          (case pingRes env n (h @ [EvDial a None]) a of
             Some e \<Rightarrow>
               (a, PingFailed (IOError e))
                 # connectSpec env n (h @ attemptEvents a (PingFailed (IOError e))) as
           | None \<Rightarrow> [(a, Connected)]))"

definition specEvents :: "(string \<times> attempt) list \<Rightarrow> 'p io_event list" where
  "specEvents log = concat (map (\<lambda>(a, t). attemptEvents a t) log)"

fun attemptError :: "attempt \<Rightarrow> go_error option" where
  "attemptError (DialFailed e) = Some e"
| "attemptError (PingFailed e) = Some e"
| "attemptError Connected = None"

definition specResult :: "(string \<times> attempt) list \<Rightarrow> go_error option" where
  "specResult log = (if log = [] then None else attemptError (snd (last log)))"

definition specConn :: "(string \<times> attempt) list \<Rightarrow> string option" where
  "specConn log =
     (if log \<noteq> [] \<and> snd (last log) = Connected then Some (fst (last log)) else None)"

subsection \<open>Concrete batches, environments and workers\<close>

text \<open>
  Modelled from the spec: \<^verbatim>\<open>schema.FlowMessage\<close> is missing; the batch buffer of the
  spec exposes finalize, count, serialize and clear, and clear resets the count to
  zero. Here a batch is the list of its records, which is also its payload.
\<close>

definition listOps :: "(nat list, nat list) FlowMessageOps" where
  "listOps = \<lparr>Finalize = (\<lambda>b. b), FlowCount = (\<lambda>b. of_nat (length b)),
              ClickHouseProtoInput = (\<lambda>b. b), Clear = (\<lambda>b. [])\<rparr>"

text \<open>Every dial, ping and send succeeds, the context is never done.\<close>

definition envOK :: "'p netenv" where
  "envOK = \<lparr>dialRes = (\<lambda>n h a. None), pingRes = (\<lambda>n h a. None), doRes = (\<lambda>n h a. None),
            ctxDone = (\<lambda>n h. False), permRes = (\<lambda>n h k. [0..<k])\<rparr>"

definition noMetrics :: metrics where
  "noMetrics = \<lparr>m_flows = [], m_waitTime = [], m_insertTime = [], m_overloaded = 0,
     m_underloaded = 0, m_errors = [], m_retriesExceeded = []\<rparr>"

definition demoDest ::
  "string \<Rightarrow> string list \<Rightarrow> int \<Rightarrow> go_uint \<Rightarrow> Duration \<Rightarrow> destinationConfig" where
  "demoDest n srv r mbs mwt =
     \<lparr>dc_name = n, dc_db = \<lparr>db_servers = srv, db_maxRetries = r\<rparr>,
      dc_config = \<lparr>MaximumBatchSize = mbs, MaximumWaitTime = mwt\<rparr>\<rparr>"

definition demoComponent :: "destinationConfig list \<Rightarrow> realComponent" where
  "demoComponent ds = \<lparr>c_destinations = ds, c_schemaHash = ''x'', c_metrics = noMetrics\<rparr>"

definition workerC1 :: "(nat list, nat list) realWorker" where
  "workerC1 =
     (NewWorker (demoComponent [demoDest ''primary'' [''a''] 0 9223372036854775808 5000000000]) [7])
       \<lparr>w_last := unixEpoch\<rparr>"

definition workerC1_sent :: "nat list destinationWriter" where
  "workerC1_sent =
     (newDestinationWriter (demoDest ''primary'' [''a''] 0 9223372036854775808 5000000000))
       \<lparr>dw_conn := Some ''a'', dw_options_Address := ''a'',
        dw_trace := [EvDial ''a'' None, EvPing ''a'' None, EvProtoInput, EvProtoInput,
          EvDo ''a'' ''flows_x_raw'' [7] [7]
            (asyncSettingsOf \<lparr>MaximumBatchSize = 9223372036854775808, MaximumWaitTime = 5000000000\<rparr>)
            None]\<rparr>"

text \<open>The end-to-end scenario of the spec: 10 records, batch size 100, wait time 5 s, two destinations.\<close>

definition workerDemo :: "(nat list, nat list) realWorker" where
  "workerDemo =
     (NewWorker (demoComponent [demoDest ''primary'' [''a''] 0 100 5000000000,
                                demoDest ''azure'' [''z''] 3 100 5000000000])
        [0, 1, 2, 3, 4, 5, 6, 7, 8, 9])
       \<lparr>w_last := unixEpoch\<rparr>"

definition demoSent :: "destinationConfig \<Rightarrow> string \<Rightarrow> nat list \<Rightarrow> nat list destinationWriter" where
  "demoSent dest a payload =
     (newDestinationWriter dest)
       \<lparr>dw_conn := Some a, dw_options_Address := a,
        dw_trace := [EvDial a None, EvPing a None, EvProtoInput, EvProtoInput,
          EvDo a ''flows_x_raw'' payload payload (asyncSettingsOf (dc_config dest)) None]\<rparr>"

definition workerDemo_flushed :: "(nat list, nat list) realWorker" where
  "workerDemo_flushed =
     workerDemo
       \<lparr>w_c := (w_c workerDemo)\<lparr>c_metrics := noMetrics
            \<lparr>m_flows := [(''primary'', 10), (''azure'', 10)], m_waitTime := [6000000000],
             m_insertTime := [''primary'', ''azure''], m_underloaded := 1\<rparr>\<rparr>,
        w_bf := [], w_last := unixEpoch + 6000000001,
        w_destWriters :=
          [demoSent (demoDest ''primary'' [''a''] 0 100 5000000000) ''a'' [0, 1, 2, 3, 4, 5, 6, 7, 8, 9],
           demoSent (demoDest ''azure'' [''z''] 3 100 5000000000) ''z'' [0, 1, 2, 3, 4, 5, 6, 7, 8, 9]],
        w_flushCalls := 1\<rparr>"

definition writerEmpty :: "nat list destinationWriter" where
  "writerEmpty = newDestinationWriter (demoDest ''empty'' [] 0 100 5000000000)"

text \<open>Every dial of the destination \<^verbatim>\<open>azure\<close> fails; all else succeeds.\<close>

definition envAzureDown :: "'p netenv" where
  "envAzureDown = \<lparr>dialRes = (\<lambda>n h a. if n = ''azure'' then Some 111 else None),
     pingRes = (\<lambda>n h a. None), doRes = (\<lambda>n h a. None),
     ctxDone = (\<lambda>n h. False), permRes = (\<lambda>n h k. [0..<k])\<rparr>"

definition workerDemo_partial :: "(nat list, nat list) realWorker" where
  "workerDemo_partial =
     workerDemo
       \<lparr>w_c := (w_c workerDemo)\<lparr>c_metrics := noMetrics
            \<lparr>m_flows := [(''primary'', 10)], m_insertTime := [''primary''],
             m_errors := [(''azure'', ''connect''), (''azure'', ''connect''), (''azure'', ''connect'')],
             m_retriesExceeded := [''azure'']\<rparr>\<rparr>,
        w_bf := [],
        w_destWriters :=
          [demoSent (demoDest ''primary'' [''a''] 0 100 5000000000) ''a'' [0, 1, 2, 3, 4, 5, 6, 7, 8, 9],
           (newDestinationWriter (demoDest ''azure'' [''z''] 3 100 5000000000))
             \<lparr>dw_options_Address := ''z'',
              dw_trace := [EvDial ''z'' (Some (IOError 111)), EvBackOff,
                           EvDial ''z'' (Some (IOError 111)), EvBackOff,
                           EvDial ''z'' (Some (IOError 111)), EvBackOff]\<rparr>],
        w_flushCalls := 1\<rparr>"

text \<open>
  Every dial and send of the destination \<^verbatim>\<open>azure\<close> fails; every send fails and the
  context is done from the \<open>k\<close>-th sleep on.
\<close>

definition envSendsFail :: "'p netenv" where
  "envSendsFail = \<lparr>dialRes = (\<lambda>n h a. if n = ''azure'' then Some 111 else None),
     pingRes = (\<lambda>n h a. None),
     doRes = (\<lambda>n h a. if n = ''azure'' then Some 112 else None),
     ctxDone = (\<lambda>n h. False), permRes = (\<lambda>n h k. [0..<k])\<rparr>"

definition envCancelAt :: "nat \<Rightarrow> 'p netenv" where
  "envCancelAt k = \<lparr>dialRes = (\<lambda>n h a. None), pingRes = (\<lambda>n h a. None),
     doRes = (\<lambda>n h a. Some 113),
     ctxDone = (\<lambda>n h. k \<le> backoffs h), permRes = (\<lambda>n h k. [0..<k])\<rparr>"

text \<open>
  Every send fails and the context is done during the I/O that follows the \<open>j\<close>-th
  sleep; every send fails and the context is done once the writer has \<open>k\<close> events
  behind it.
\<close>

definition envCancelIO :: "nat \<Rightarrow> 'p netenv" where
  "envCancelIO j = \<lparr>dialRes = (\<lambda>n h a. None), pingRes = (\<lambda>n h a. None),
     doRes = (\<lambda>n h a. Some 113),
     ctxDone = (\<lambda>n h. j \<le> backoffs h \<and> h \<noteq> [] \<and> last h \<noteq> EvBackOff),
     permRes = (\<lambda>n h k. [0..<k])\<rparr>"

definition envCancelLen :: "nat \<Rightarrow> 'p netenv" where
  "envCancelLen k = \<lparr>dialRes = (\<lambda>n h a. None), pingRes = (\<lambda>n h a. None),
     doRes = (\<lambda>n h a. Some 113),
     ctxDone = (\<lambda>n h. k \<le> length h), permRes = (\<lambda>n h k. [0..<k])\<rparr>"

definition writerPrimary :: "nat list destinationWriter" where
  "writerPrimary = newDestinationWriter (demoDest ''primary'' [''a''] 0 100 5000000000)"

definition writerAzure1 :: "nat list destinationWriter" where
  "writerAzure1 = newDestinationWriter (demoDest ''azure'' [''z''] 1 100 5000000000)"

definition workerIndep :: "(nat list, nat list) realWorker" where
  "workerIndep =
     NewWorker (demoComponent [demoDest ''primary'' [''a''] 0 100 5000000000,
                               demoDest ''azure'' [''z''] 1 100 5000000000])
       [0, 1, 2, 3, 4, 5, 6, 7, 8, 9]"

text \<open>Three servers, of which only the third can be dialled.\<close>

definition envFailover :: "'p netenv" where
  "envFailover = \<lparr>dialRes = (\<lambda>n h a. if a = ''s3'' then None else Some 101),
     pingRes = (\<lambda>n h a. None), doRes = (\<lambda>n h a. None),
     ctxDone = (\<lambda>n h. False), permRes = (\<lambda>n h k. [0..<k])\<rparr>"

definition writer3 :: "nat list destinationWriter" where
  "writer3 = newDestinationWriter (demoDest ''primary'' [''s1'', ''s2'', ''s3''] 0 100 5000000000)"

definition writer3_connected :: "nat list destinationWriter" where
  "writer3_connected =
     writer3\<lparr>dw_conn := Some ''s3'', dw_options_Address := ''s3'',
             dw_trace := [EvDial ''s1'' (Some (IOError 101)), EvDial ''s2'' (Some (IOError 101)),
                          EvDial ''s3'' None, EvPing ''s3'' None]\<rparr>"

section \<open>Machine integers and time\<close>

lemma sint_small_gen:
  fixes w :: "'a::len word"
  assumes "uint w < 2 ^ (LENGTH('a) - 1)"
  shows "sint w = uint w"
proof -
  have "- (2 ^ (LENGTH('a) - Suc 0)) \<le> uint w"
    by (rule order_trans [of _ 0]) simp_all
  moreover have "uint w < 2 ^ (LENGTH('a) - Suc 0)"
    using assms by simp
  ultimately have "signed_take_bit (LENGTH('a) - Suc 0) (uint w) = uint w"
    by (rule signed_take_bit_int_eq_self)
  then show ?thesis by (simp only: sint_uint)
qed

lemma sint_small: "uint (w::64 word) < 2 ^ 63 \<Longrightarrow> sint w = uint w"
  using sint_small_gen [of w] by simp

lemma sint_word_of_int_gen:
  fixes k :: int
  assumes "- (2 ^ (LENGTH('a::len) - 1)) \<le> k" "k < 2 ^ (LENGTH('a) - 1)"
  shows "sint (word_of_int k :: 'a word) = k"
  using assms by (simp only: sint_sbintrunc' signed_take_bit_int_eq_self)

lemma sint_word_of_int_64:
  "- 9223372036854775808 \<le> k \<Longrightarrow> k < 9223372036854775808 \<Longrightarrow> sint (word_of_int k :: 64 word) = k"
  using sint_word_of_int_gen [where 'a = 64, of k] by simp

lemma sint_time_Sub: "sint (time_Sub t u) = max minDuration (min maxDuration (t - u))"
proof -
  let ?k = "max minDuration (min maxDuration (t - u))"
  have "- 9223372036854775808 \<le> ?k" "?k < 9223372036854775808"
    by (simp_all add: minDuration_def maxDuration_def)
  then show ?thesis unfolding time_Sub_def by (rule sint_word_of_int_64)
qed

lemma sint_le_maxDuration: "sint (d :: 64 word) \<le> maxDuration"
  using sint_lt [of d] by (simp add: maxDuration_def)

lemma time_Sub_zero: "unixEpoch \<le> now \<Longrightarrow> sint (time_Sub now 0) = maxDuration"
  unfolding sint_time_Sub by (simp add: unixEpoch_def maxDuration_def minDuration_def)

section \<open>The decision of \<^verbatim>\<open>FinalizeAndSend\<close>\<close>

lemma flushTriggered_unsigned:
  assumes "uint (MaximumBatchSize cfg) < 2 ^ 63" and "uint b < 2 ^ 63"
  shows "flushTriggered b d cfg \<longleftrightarrow>
           uint (MaximumBatchSize cfg) \<le> uint b \<or> sint (MaximumWaitTime cfg) \<le> sint d"
  unfolding flushTriggered_def
  by (simp only: sint_small [OF assms(1)] sint_small [OF assms(2)])

lemma Flush_frame:
  assumes "Flush fuel K ops env w = Some (Returned w2)"
  shows "w_flushCalls w2 = Suc (w_flushCalls w) \<and> w_last w2 = w_last w"
  using assms unfolding Flush_def
  by (auto simp: Let_def split: if_splits option.splits outcome.splits prod.splits)

lemma recordWaitTime_frame [simp]:
  "w_flushCalls (recordWaitTime now w) = w_flushCalls w"
  "w_last (recordWaitTime now w) = w_last w"
  "w_bf (recordWaitTime now w) = w_bf w"
  "w_destWriters (recordWaitTime now w) = w_destWriters w"
  by (simp_all add: recordWaitTime_def)

lemma FinalizeAndSend_idle:
  assumes "\<not> flushTriggered (FlowCount ops (Finalize ops (w_bf w0)))
              (time_Sub now (w_last w0)) (primaryConfig (w_c w0))"
  shows "FinalizeAndSend fuel K ops env now now2 w0 =
           Some (Returned (WorkerStatusOK, w0\<lparr>w_bf := Finalize ops (w_bf w0)\<rparr>))"
  using assms by (simp add: FinalizeAndSend_def Let_def)

lemma FinalizeAndSend_flush:
  assumes "flushTriggered (FlowCount ops (Finalize ops (w_bf w0)))
              (time_Sub now (w_last w0)) (primaryConfig (w_c w0))"
  shows "FinalizeAndSend fuel K ops env now now2 w0 =
     (case Flush fuel K ops env (recordWaitTime now (w0\<lparr>w_bf := Finalize ops (w_bf w0)\<rparr>)) of
        None \<Rightarrow> None
      | Some Panicked \<Rightarrow> Some Panicked
      | Some (Returned w2) \<Rightarrow>
          (if MaximumBatchSize (primaryConfig (w_c w0)) \<le> FlowCount ops (Finalize ops (w_bf w0))
           then Some (Returned (WorkerStatusOverloaded, incOverloaded (w2\<lparr>w_last := now2\<rparr>)))
           else if FlowCount ops (Finalize ops (w_bf w0))
                     \<le> MaximumBatchSize (primaryConfig (w_c w0)) div K
           then Some (Returned (WorkerStatusUnderloaded, incUnderloaded (w2\<lparr>w_last := now2\<rparr>)))
           else Some (Returned (WorkerStatusOK, w2\<lparr>w_last := now2\<rparr>))))"
  using assms by (simp add: FinalizeAndSend_def Let_def split: option.splits outcome.splits)

lemma inc_frame [simp]:
  "w_flushCalls (incOverloaded w) = w_flushCalls w"
  "w_last (incOverloaded w) = w_last w"
  "w_flushCalls (incUnderloaded w) = w_flushCalls w"
  "w_last (incUnderloaded w) = w_last w"
  by (simp_all add: incOverloaded_def incUnderloaded_def)

lemma FinalizeAndSend_flushed:
  assumes trig: "flushTriggered (FlowCount ops (Finalize ops (w_bf w0)))
              (time_Sub now (w_last w0)) (primaryConfig (w_c w0))"
      and ret: "FinalizeAndSend fuel K ops env now now2 w0 = Some (Returned (s, w'))"
  shows "w_flushCalls w' = Suc (w_flushCalls w0) \<and> w_last w' = now2"
proof -
  from ret obtain w2 where
    f: "Flush fuel K ops env (recordWaitTime now (w0\<lparr>w_bf := Finalize ops (w_bf w0)\<rparr>)) = Some (Returned w2)"
    and w': "w' = incOverloaded (w2\<lparr>w_last := now2\<rparr>) \<or> w' = incUnderloaded (w2\<lparr>w_last := now2\<rparr>)
             \<or> w' = w2\<lparr>w_last := now2\<rparr>"
    unfolding FinalizeAndSend_flush [OF trig]
    by (auto split: option.splits outcome.splits if_splits)
  from Flush_frame [OF f] have "w_flushCalls w2 = Suc (w_flushCalls w0)" by simp
  with w' show ?thesis by auto
qed

lemma NewWorker_sel [simp]:
  "w_last (NewWorker c bf) = 0"
  "w_bf (NewWorker c bf) = bf"
  "w_c (NewWorker c bf) = c"
  "w_flushCalls (NewWorker c bf) = 0"
  "w_destWriters (NewWorker c bf) = map newDestinationWriter (c_destinations c)"
  by (simp_all add: NewWorker_def)

lemma inc_waitTime [simp]:
  "m_waitTime (c_metrics (w_c (incOverloaded w))) = m_waitTime (c_metrics (w_c w))"
  "m_waitTime (c_metrics (w_c (incUnderloaded w))) = m_waitTime (c_metrics (w_c w))"
  by (simp_all add: incOverloaded_def incUnderloaded_def)

section \<open>Metrics touched by a flush\<close>

lemma operation_metrics:
  assumes "operation ops env hash bf settings maxA (a, dw, m) = (r, a', dw', m')"
  shows "m_waitTime m' = m_waitTime m \<and> m_overloaded m' = m_overloaded m
         \<and> m_underloaded m' = m_underloaded m"
  using assms unfolding operation_def
  by (auto simp: Let_def split: if_splits prod.splits option.splits)

lemma Retry_metrics:
  assumes "Retry fuel ops env hash bf settings maxA (a, dw, m) = Some (Returned (e, a', dw', m'))"
  shows "m_waitTime m' = m_waitTime m \<and> m_overloaded m' = m_overloaded m
         \<and> m_underloaded m' = m_underloaded m"
  using assms
proof (induction fuel arbitrary: a dw m)
  case 0
  then show ?case by simp
next
  case (Suc fuel)
  obtain r a1 dw1 m1 where op: "operation ops env hash bf settings maxA (a, dw, m) = (r, a1, dw1, m1)"
    by (metis prod_cases4)
  note om = operation_metrics [OF op]
  show ?case
  proof (cases r)
    case OpOK
    with Suc.prems op om show ?thesis by simp
  next
    case (OpErr err)
    show ?thesis
    proof (cases "ctxDone env (dw_name dw1) (dw_trace dw1)")
      case True
      with Suc.prems op om OpErr show ?thesis by simp
    next
      case nd: False
      show ?thesis
      proof (cases "ctxDone env (dw_name (emit EvBackOff dw1)) (dw_trace (emit EvBackOff dw1))")
        case True
        with Suc.prems op om OpErr nd show ?thesis by (simp add: Let_def)
      next
        case False
        with Suc.prems op OpErr nd
        have "Retry fuel ops env hash bf settings maxA (a1, emit EvBackOff dw1, m1)
                = Some (Returned (e, a', dw', m'))"
          by (simp add: Let_def)
        from Suc.IH [OF this] om show ?thesis by simp
      qed
    qed
  next
    case (OpPermanent err)
    with Suc.prems op om show ?thesis by simp
  next
    case OpPanic
    with Suc.prems op show ?thesis by simp
  qed
qed

lemma flushAll_metrics:
  assumes "flushAll fuel K ops env hash bf dws m = Some (Returned (errs, dws', m'))"
  shows "m_waitTime m' = m_waitTime m \<and> m_overloaded m' = m_overloaded m
         \<and> m_underloaded m' = m_underloaded m"
  using assms
proof (induction dws arbitrary: m errs dws')
  case Nil
  then show ?case by simp
next
  case (Cons dw dws)
  from Cons.prems obtain e a dw1 m1 errs1 dws1 where
    one: "flushSingleDestination fuel K ops env hash bf dw m = Some (Returned (e, a, dw1, m1))"
    and rest: "flushAll fuel K ops env hash bf dws m1 = Some (Returned (errs1, dws1, m'))"
    by (auto split: option.splits outcome.splits prod.splits)
  from one have "m_waitTime m1 = m_waitTime m \<and> m_overloaded m1 = m_overloaded m
         \<and> m_underloaded m1 = m_underloaded m"
    unfolding flushSingleDestination_def Let_def by (rule Retry_metrics)
  with Cons.IH [OF rest] show ?case by simp
qed

lemma Flush_waitTime:
  assumes "Flush fuel K ops env w = Some (Returned w2)"
  shows "m_waitTime (c_metrics (w_c w2)) = m_waitTime (c_metrics (w_c w))"
  using assms unfolding Flush_def
  by (auto simp: Let_def dest: flushAll_metrics split: if_splits option.splits outcome.splits prod.splits)

section \<open>Evaluating the concrete workers\<close>

lemmas demo_defs = workerC1_def workerC1_sent_def workerDemo_def
  workerDemo_flushed_def demoSent_def
  NewWorker_def demoComponent_def demoDest_def
  primaryConfig_def listOps_def envOK_def noMetrics_def newDestinationWriter_def
  FinalizeAndSend_def Flush_def flushSingleDestination_def flushSettings_def operation_def
  connectDestination_def emit_def recordWaitTime_def incOverloaded_def incUnderloaded_def
  flushTriggered_def time_IsZero_def Let_def

lemma time_Sub_self: "time_Sub t t = 0"
  by (simp add: time_Sub_def minDuration_def maxDuration_def)

lemma time_Sub_small:
  "0 \<le> d \<Longrightarrow> d < 9223372036854775808 \<Longrightarrow> time_Sub (t + d) t = word_of_int d"
  by (simp add: time_Sub_def minDuration_def maxDuration_def)

lemma big_word: "\<not> (9223372036854775808 :: 64 word) \<le> 1"
  by (simp add: word_le_def)

lemma unixEpoch_nz: "unixEpoch \<noteq> 0"
  by (simp add: unixEpoch_def)

lemma demo_flush:
  "FinalizeAndSend 1 10 listOps envOK (unixEpoch + 6000000000) (unixEpoch + 6000000001) workerDemo =
     Some (Returned (WorkerStatusUnderloaded, workerDemo_flushed))"
  by (simp add: demo_defs time_Sub_small unixEpoch_nz word_le_def)


section \<open>Threshold triggering\<close>

text \<open>
  Claim C1. The trigger of \<^verbatim>\<open>FinalizeAndSend\<close> compares the batch size with
  \<^verbatim>\<open>int(primaryConfig.MaximumBatchSize)\<close>, a signed conversion, where the two lines that
  choose the status compare as \<^verbatim>\<open>uint\<close>. Below \<open>2 ^ 63\<close> the two readings agree
  (lemma \<open>flushTriggered_unsigned\<close>). With \<^verbatim>\<open>MaximumBatchSize\<close> \<open>= 2 ^ 63\<close> the
  converted value is \<open>- 2 ^ 63\<close>: a batch of one record, examined at the instant of the
  last flush, crosses neither threshold (one record is fewer than \<open>2 ^ 63\<close>, no time
  has passed and \<^verbatim>\<open>MaximumWaitTime\<close> is 5 s), and yet \<^verbatim>\<open>FinalizeAndSend\<close> flushes: the
  record is sent to the destination, the batch is cleared, the last-flush time is set
  and the status is \<^verbatim>\<open>WorkerStatusUnderloaded\<close>, not \<^verbatim>\<open>WorkerStatusOK\<close>.
\<close>

theorem C1_batch_size_wrap:
  "sint (MaximumBatchSize (primaryConfig (w_c workerC1))) = - 9223372036854775808
   \<and> uint (FlowCount listOps (Finalize listOps (w_bf workerC1)))
     < uint (MaximumBatchSize (primaryConfig (w_c workerC1)))
   \<and> sint (time_Sub unixEpoch (w_last workerC1))
     < sint (MaximumWaitTime (primaryConfig (w_c workerC1)))
   \<and> FinalizeAndSend 1 10 listOps envOK unixEpoch (unixEpoch + 1) workerC1 =
       Some (Returned (WorkerStatusUnderloaded,
         workerC1\<lparr>w_c := (w_c workerC1)\<lparr>c_metrics := noMetrics
                      \<lparr>m_flows := [(''primary'', 1)], m_waitTime := [0],
                       m_insertTime := [''primary''], m_underloaded := 1\<rparr>\<rparr>,
                  w_bf := [], w_last := unixEpoch + 1,
                  w_destWriters := [workerC1_sent], w_flushCalls := 1\<rparr>))"
  by (simp add: demo_defs time_Sub_self big_word unixEpoch_nz)

section \<open>The load signal\<close>



section \<open>Connecting\<close>

lemma grows_refl [simp]: "grows good dw dw"
  by (simp add: grows_def)

lemma grows_trans:
  assumes "grows good dw dw1" and "grows good dw1 dw2"
  shows "grows good dw dw2"
proof -
  from assms(1) obtain evs where 1: "dw_trace dw1 = dw_trace dw @ evs" "list_all good evs"
    by (auto simp: grows_def)
  from assms(2) obtain evs2 where 2: "dw_trace dw2 = dw_trace dw1 @ evs2" "list_all good evs2"
    by (auto simp: grows_def)
  from 1 2 have "dw_trace dw2 = dw_trace dw @ (evs @ evs2)" "list_all good (evs @ evs2)"
    by simp_all
  then have "\<exists>es. dw_trace dw2 = dw_trace dw @ es \<and> list_all good es" by blast
  with assms show ?thesis by (simp add: grows_def)
qed

lemma grows_mono: "(\<And>e. good e \<Longrightarrow> good' e) \<Longrightarrow> grows good dw dw' \<Longrightarrow> grows good' dw dw'"
  unfolding grows_def by (auto simp: list_all_iff)

lemma grows_emit: "good e \<Longrightarrow> grows good dw dw1 \<Longrightarrow> grows good dw (emit e dw1)"
  unfolding grows_def emit_def by auto

lemma grows_conn [simp]: "grows good dw (dw1\<lparr>dw_conn := c\<rparr>) = grows good dw dw1"
  by (simp add: grows_def)

lemma grows_addr [simp]: "grows good dw (dw1\<lparr>dw_options_Address := a\<rparr>) = grows good dw dw1"
  by (simp add: grows_def)

lemma emit_sel [simp]:
  "dw_name (emit e dw) = dw_name dw" "dw_servers (emit e dw) = dw_servers dw"
  "dw_conn (emit e dw) = dw_conn dw" "dw_trace (emit e dw) = dw_trace dw @ [e]"
  "dw_config (emit e dw) = dw_config dw" "dw_maxRetries (emit e dw) = dw_maxRetries dw"
  "dw_asyncSettings (emit e dw) = dw_asyncSettings dw"
  by (simp_all add: emit_def)

lemma tryServers_grows:
  "grows isConnEv dw0 dw \<Longrightarrow> tryServers env perm lastErr dw = (r, dw') \<Longrightarrow> grows isConnEv dw0 dw'"
proof (induction perm arbitrary: lastErr dw)
  case Nil
  then show ?case by simp
next
  case (Cons idx rest)
  let ?addr = "dw_servers dw ! idx"
  let ?dw1 = "dw\<lparr>dw_options_Address := ?addr\<rparr>"
  from Cons.prems(1) have g1: "grows isConnEv dw0 ?dw1" by simp
  show ?case
  proof (cases "dialRes env (dw_name ?dw1) (dw_trace ?dw1) ?addr")
    case (Some e)
    with Cons.prems(2)
    have "tryServers env rest (Some (IOError e)) (emit (EvDial ?addr (Some (IOError e))) ?dw1) = (r, dw')"
      by (simp add: Let_def)
    moreover have "grows isConnEv dw0 (emit (EvDial ?addr (Some (IOError e))) ?dw1)"
      by (rule grows_emit [OF _ g1]) simp
    ultimately show ?thesis by (rule Cons.IH [rotated])
  next
    case None
    let ?dw2 = "emit (EvDial ?addr None) ?dw1"
    have g2: "grows isConnEv dw0 ?dw2" by (rule grows_emit [OF _ g1]) simp
    show ?thesis
    proof (cases "pingRes env (dw_name ?dw2) (dw_trace ?dw2) ?addr")
      case (Some e)
      let ?dw3 = "emit (EvClose ?addr) (emit (EvPing ?addr (Some (IOError e))) ?dw2)"
      from Cons.prems(2) None Some
      have "tryServers env rest (Some (IOError e)) ?dw3 = (r, dw')"
        by (simp add: Let_def)
      moreover have "grows isConnEv dw0 ?dw3"
        by (intro grows_emit g2) simp_all
      ultimately show ?thesis by (rule Cons.IH [rotated])
    next
      case pn: None
      from Cons.prems(2) None pn
      have "dw' = (emit (EvPing ?addr None) ?dw2)\<lparr>dw_conn := Some ?addr\<rparr>"
        by (simp add: Let_def)
      then show ?thesis using g2 by (simp add: grows_emit)
    qed
  qed
qed

text \<open>A successful return of the loop leaves a live connection, unless the loop did not run.\<close>

lemma tryServers_None:
  "tryServers env perm lastErr dw = (None, dw') \<Longrightarrow>
     (perm = [] \<and> lastErr = None \<and> dw' = dw) \<or> dw_conn dw' \<noteq> None"
proof (induction perm arbitrary: lastErr dw)
  case Nil
  then show ?case by simp
next
  case (Cons idx rest)
  then show ?case
    by (auto simp: Let_def split: option.splits dest!: Cons.IH)
qed

lemma tryServers_Some:
  "tryServers env perm lastErr dw = (Some e, dw') \<Longrightarrow> perm \<noteq> [] \<or> lastErr = Some e"
  by (cases perm) auto

lemma tryServers_conn:
  "tryServers env perm lastErr dw = (Some e, dw') \<Longrightarrow> dw_conn dw' = dw_conn dw"
proof (induction perm arbitrary: lastErr dw)
  case Nil
  then show ?case by simp
next
  case (Cons idx rest)
  then show ?case
    by (auto simp: Let_def split: option.splits dest!: Cons.IH)
qed

lemma permOK_length: "permOK env \<Longrightarrow> length (permRes env n h k) = k"
  unfolding permOK_def by (metis card_atLeastLessThan diff_zero distinct_card)

lemma permOK_Nil: "permOK env \<Longrightarrow> permRes env n h k = [] \<longleftrightarrow> k = 0"
  using permOK_length [of env n h k] by auto

lemma connectDestination_grows:
  assumes "connectDestination env dw = (r, dw')"
  shows "grows isConnEv dw dw'"
proof (cases "dw_conn dw")
  case None
  with assms show ?thesis
    by (auto simp: connectDestination_def Let_def intro: tryServers_grows [OF grows_refl])
next
  case (Some a)
  show ?thesis
  proof (cases "pingRes env (dw_name dw) (dw_trace dw) a")
    case None
    with assms Some show ?thesis
      by (auto simp: connectDestination_def Let_def intro!: grows_emit)
  next
    case pf: (Some e)
    let ?dw1 = "(emit (EvClose a) (emit (EvPing a (Some (IOError e))) dw))\<lparr>dw_conn := None\<rparr>"
    have g: "grows isConnEv dw ?dw1" by (simp add: grows_emit)
    from assms Some pf
    have "tryServers env (permRes env (dw_name ?dw1) (dw_trace ?dw1) (length (dw_servers ?dw1)))
            None ?dw1 = (r, dw')"
      by (simp add: connectDestination_def Let_def)
    from tryServers_grows [OF g this] show ?thesis .
  qed
qed

text \<open>After a successful connect there is a live connection, unless the server list is empty.\<close>

lemma connectDestination_None:
  assumes "permOK env" and "connectDestination env dw = (None, dw')"
  shows "dw_conn dw' \<noteq> None \<or> (dw_servers dw = [] \<and> dw_conn dw' = None)"
proof (cases "dw_conn dw")
  case None
  with assms(2) have "tryServers env (permRes env (dw_name dw) (dw_trace dw) (length (dw_servers dw)))
            None dw = (None, dw')"
    by (simp add: connectDestination_def Let_def)
  from tryServers_None [OF this] None permOK_Nil [OF assms(1)] show ?thesis by auto
next
  case (Some a)
  show ?thesis
  proof (cases "pingRes env (dw_name dw) (dw_trace dw) a")
    case None
    with assms(2) Some show ?thesis
      by (auto simp: connectDestination_def Let_def)
  next
    case pf: (Some e)
    let ?dw1 = "(emit (EvClose a) (emit (EvPing a (Some (IOError e))) dw))\<lparr>dw_conn := None\<rparr>"
    from assms(2) Some pf
    have "tryServers env (permRes env (dw_name ?dw1) (dw_trace ?dw1) (length (dw_servers ?dw1)))
            None ?dw1 = (None, dw')"
      by (simp add: connectDestination_def Let_def)
    from tryServers_None [OF this] permOK_Nil [OF assms(1)] show ?thesis by auto
  qed
qed

lemma connectDestination_Some:
  assumes "permOK env" and "connectDestination env dw = (Some e, dw')"
  shows "dw_servers dw \<noteq> [] \<and> dw_conn dw' = None"
proof (cases "dw_conn dw")
  case None
  with assms(2) have t: "tryServers env (permRes env (dw_name dw) (dw_trace dw) (length (dw_servers dw)))
            None dw = (Some e, dw')"
    by (simp add: connectDestination_def Let_def)
  from tryServers_Some [OF t] tryServers_conn [OF t] None permOK_Nil [OF assms(1)]
  show ?thesis by auto
next
  case (Some a)
  show ?thesis
  proof (cases "pingRes env (dw_name dw) (dw_trace dw) a")
    case None
    with assms(2) Some show ?thesis
      by (auto simp: connectDestination_def Let_def)
  next
    case pf: (Some e')
    let ?dw1 = "(emit (EvClose a) (emit (EvPing a (Some (IOError e'))) dw))\<lparr>dw_conn := None\<rparr>"
    from assms(2) Some pf
    have t: "tryServers env (permRes env (dw_name ?dw1) (dw_trace ?dw1) (length (dw_servers ?dw1)))
            None ?dw1 = (Some e, dw')"
      by (simp add: connectDestination_def Let_def)
    from tryServers_Some [OF t] tryServers_conn [OF t] permOK_Nil [OF assms(1)]
    show ?thesis by auto
  qed
qed

section \<open>One attempt and the retry loop\<close>

lemma isConnEv_flushEv: "isConnEv e \<Longrightarrow> flushEv p table s e"
  by (cases e) simp_all

lemma operation_exhausted:
  "exhausted maxA a \<Longrightarrow>
   operation ops env hash bf s maxA (a, dw, m) =
     (OpPermanent (MaxRetriesExceeded maxA (dw_name dw)), a + 1, dw,
      m\<lparr>m_retriesExceeded := m_retriesExceeded m @ [dw_name dw]\<rparr>)"
  by (simp add: operation_def exhausted_def Let_def)

lemma operation_connErr:
  "\<not> exhausted maxA a \<Longrightarrow> connectDestination env dw = (Some err, dw1) \<Longrightarrow>
   operation ops env hash bf s maxA (a, dw, m) =
     (OpErr err, a + 1, dw1, m\<lparr>m_errors := m_errors m @ [(dw_name dw1, ''connect'')]\<rparr>)"
  by (simp add: operation_def exhausted_def Let_def)

lemma operation_panic:
  "\<not> exhausted maxA a \<Longrightarrow> connectDestination env dw = (None, dw1) \<Longrightarrow> dw_conn dw1 = None \<Longrightarrow>
   operation ops env hash bf s maxA (a, dw, m) =
     (OpPanic, a + 1, emit EvProtoInput (emit EvProtoInput dw1), m)"
  by (simp add: operation_def exhausted_def Let_def)

lemma operation_sendErr:
  "\<not> exhausted maxA a \<Longrightarrow> connectDestination env dw = (None, dw1) \<Longrightarrow> dw_conn dw1 = Some addr \<Longrightarrow>
   doRes env (dw_name dw1) (dw_trace dw1 @ [EvProtoInput, EvProtoInput]) addr = Some e \<Longrightarrow>
   operation ops env hash bf s maxA (a, dw, m) =
     (OpErr (IOError e), a + 1,
      (emit (EvClose addr)
         (emit (EvDo addr (''flows_'' @ hash @ ''_raw'') (ClickHouseProtoInput ops bf)
                  (ClickHouseProtoInput ops bf) s (Some (IOError e)))
            (emit EvProtoInput (emit EvProtoInput dw1))))\<lparr>dw_conn := None\<rparr>,
      m\<lparr>m_errors := m_errors m @ [(dw_name dw1, ''send'')]\<rparr>)"
  by (simp add: operation_def exhausted_def Let_def)

lemma operation_ok:
  "\<not> exhausted maxA a \<Longrightarrow> connectDestination env dw = (None, dw1) \<Longrightarrow> dw_conn dw1 = Some addr \<Longrightarrow>
   doRes env (dw_name dw1) (dw_trace dw1 @ [EvProtoInput, EvProtoInput]) addr = None \<Longrightarrow>
   operation ops env hash bf s maxA (a, dw, m) =
     (OpOK, a + 1,
      emit (EvDo addr (''flows_'' @ hash @ ''_raw'') (ClickHouseProtoInput ops bf)
              (ClickHouseProtoInput ops bf) s None)
        (emit EvProtoInput (emit EvProtoInput dw1)),
      m\<lparr>m_insertTime := m_insertTime m @ [dw_name dw1],
        m_flows := m_flows m @ [(dw_name dw1, FlowCount ops bf)]\<rparr>)"
  by (simp add: operation_def exhausted_def Let_def)

text \<open>The five ways an attempt can go.\<close>

lemma operation_cases:
  obtains
    (exhausted) "exhausted maxA a"
      "operation ops env hash bf s maxA (a, dw, m) =
         (OpPermanent (MaxRetriesExceeded maxA (dw_name dw)), a + 1, dw,
          m\<lparr>m_retriesExceeded := m_retriesExceeded m @ [dw_name dw]\<rparr>)"
  | (connErr) err dw1 where "\<not> exhausted maxA a" "connectDestination env dw = (Some err, dw1)"
      "operation ops env hash bf s maxA (a, dw, m) =
         (OpErr err, a + 1, dw1, m\<lparr>m_errors := m_errors m @ [(dw_name dw1, ''connect'')]\<rparr>)"
  | (panic) dw1 where "\<not> exhausted maxA a" "connectDestination env dw = (None, dw1)"
      "dw_conn dw1 = None"
      "operation ops env hash bf s maxA (a, dw, m) =
         (OpPanic, a + 1, emit EvProtoInput (emit EvProtoInput dw1), m)"
  | (sendErr) dw1 addr e where "\<not> exhausted maxA a" "connectDestination env dw = (None, dw1)"
      "dw_conn dw1 = Some addr"
      "doRes env (dw_name dw1) (dw_trace dw1 @ [EvProtoInput, EvProtoInput]) addr = Some e"
      "operation ops env hash bf s maxA (a, dw, m) =
         (OpErr (IOError e), a + 1,
          (emit (EvClose addr)
             (emit (EvDo addr (''flows_'' @ hash @ ''_raw'') (ClickHouseProtoInput ops bf)
                      (ClickHouseProtoInput ops bf) s (Some (IOError e)))
                (emit EvProtoInput (emit EvProtoInput dw1))))\<lparr>dw_conn := None\<rparr>,
          m\<lparr>m_errors := m_errors m @ [(dw_name dw1, ''send'')]\<rparr>)"
  | (ok) dw1 addr where "\<not> exhausted maxA a" "connectDestination env dw = (None, dw1)"
      "dw_conn dw1 = Some addr"
      "doRes env (dw_name dw1) (dw_trace dw1 @ [EvProtoInput, EvProtoInput]) addr = None"
      "operation ops env hash bf s maxA (a, dw, m) =
         (OpOK, a + 1,
          emit (EvDo addr (''flows_'' @ hash @ ''_raw'') (ClickHouseProtoInput ops bf)
                  (ClickHouseProtoInput ops bf) s None)
            (emit EvProtoInput (emit EvProtoInput dw1)),
          m\<lparr>m_insertTime := m_insertTime m @ [dw_name dw1],
            m_flows := m_flows m @ [(dw_name dw1, FlowCount ops bf)]\<rparr>)"
proof (cases "exhausted maxA a")
  case True
  from exhausted [OF True operation_exhausted [OF True]] show ?thesis .
next
  case False
  obtain r1 dw1 where c: "connectDestination env dw = (r1, dw1)"
    by (cases "connectDestination env dw")
  show ?thesis
  proof (cases r1)
    case (Some err)
    with c have c': "connectDestination env dw = (Some err, dw1)" by simp
    from connErr [OF False c' operation_connErr [OF False c']] show ?thesis .
  next
    case None
    with c have c': "connectDestination env dw = (None, dw1)" by simp
    show ?thesis
    proof (cases "dw_conn dw1")
      case cn: None
      from panic [OF False c' cn operation_panic [OF False c' cn]] show ?thesis .
    next
      case (Some addr)
      show ?thesis
      proof (cases "doRes env (dw_name dw1) (dw_trace dw1 @ [EvProtoInput, EvProtoInput]) addr")
        case dn: None
        from ok [OF False c' Some dn operation_ok [OF False c' Some dn]] show ?thesis .
      next
        case ds: (Some e)
        from sendErr [OF False c' Some ds operation_sendErr [OF False c' Some ds]] show ?thesis .
      qed
    qed
  qed
qed

lemma operation_attempts:
  "operation ops env hash bf s maxA (a, dw, m) = (r, a', dw', m') \<Longrightarrow> a' = a + 1"
  by (cases rule: operation_cases [of maxA a ops env hash bf s dw m]) simp_all

lemma operation_grows:
  assumes "operation ops env hash bf s maxA (a, dw, m) = (r, a', dw', m')"
  shows "grows (flushEv (ClickHouseProtoInput ops bf) (''flows_'' @ hash @ ''_raw'') s) dw dw'"
proof -
  let ?good = "flushEv (ClickHouseProtoInput ops bf) (''flows_'' @ hash @ ''_raw'') s"
  have g: "grows ?good dw dw1" if "connectDestination env dw = (r1, dw1)" for r1 dw1
    by (rule grows_mono [OF _ connectDestination_grows [OF that]]) (rule isConnEv_flushEv)
  show ?thesis
  proof (cases rule: operation_cases [of maxA a ops env hash bf s dw m])
    case exhausted
    with assms show ?thesis by simp
  next
    case (connErr err dw1)
    with assms g [OF connErr(2)] show ?thesis by simp
  next
    case (panic dw1)
    with assms g [OF panic(2)] show ?thesis by (auto intro!: grows_emit)
  next
    case (sendErr dw1 addr e)
    with assms g [OF sendErr(2)] show ?thesis by (auto intro!: grows_emit)
  next
    case (ok dw1 addr)
    with assms g [OF ok(2)] show ?thesis by (auto intro!: grows_emit)
  qed
qed

lemma Retry_inv:
  assumes "Retry fuel ops env hash bf s maxA st = Some (Returned (e, st'))"
      and "P st"
      and step: "\<And>st1 r st2. P st1 \<Longrightarrow> operation ops env hash bf s maxA st1 = (r, st2) \<Longrightarrow> P st2"
      and sleep: "\<And>a dw m. P (a, dw, m) \<Longrightarrow> P (a, emit EvBackOff dw, m)"
  shows "P st'"
  using assms(1,2)
proof (induction fuel arbitrary: st)
  case 0
  then show ?case by simp
next
  case (Suc fuel)
  obtain r a1 dw1 m1 where op: "operation ops env hash bf s maxA st = (r, a1, dw1, m1)"
    by (metis prod_cases4)
  from step [OF Suc.prems(2) op] have p1: "P (a1, dw1, m1)" .
  show ?case
  proof (cases r)
    case OpOK
    with Suc.prems(1) op p1 show ?thesis by simp
  next
    case (OpErr err)
    show ?thesis
    proof (cases "ctxDone env (dw_name dw1) (dw_trace dw1)")
      case True
      with Suc.prems(1) op p1 OpErr show ?thesis by simp
    next
      case nd: False
      show ?thesis
      proof (cases "ctxDone env (dw_name (emit EvBackOff dw1)) (dw_trace (emit EvBackOff dw1))")
        case True
        with Suc.prems(1) op OpErr nd sleep [OF p1] show ?thesis by (simp add: Let_def)
      next
        case False
        with Suc.prems(1) op OpErr nd
        have "Retry fuel ops env hash bf s maxA (a1, emit EvBackOff dw1, m1)
                = Some (Returned (e, st'))"
          by (simp add: Let_def)
        from Suc.IH [OF this sleep [OF p1]] show ?thesis .
      qed
    qed
  next
    case (OpPermanent err)
    with Suc.prems(1) op p1 show ?thesis by simp
  next
    case OpPanic
    with Suc.prems(1) op show ?thesis by simp
  qed
qed

lemma Retry_grows:
  assumes "Retry fuel ops env hash bf s maxA (a, dw, m) = Some (Returned (e, a', dw', m'))"
  shows "grows (flushEv (ClickHouseProtoInput ops bf) (''flows_'' @ hash @ ''_raw'') s) dw dw'"
proof -
  let ?good = "flushEv (ClickHouseProtoInput ops bf) (''flows_'' @ hash @ ''_raw'') s"
  let ?P = "\<lambda>st. grows ?good dw (fst (snd st))"
  have "?P (a', dw', m')"
  proof (rule Retry_inv [OF assms, where P = ?P])
    show "?P (a, dw, m)" by simp
  next
    fix st1 r st2
    assume p: "?P st1" and op: "operation ops env hash bf s maxA st1 = (r, st2)"
    obtain a1 dw1 m1 where st1: "st1 = (a1, dw1, m1)" by (cases st1)
    obtain a2 dw2 m2 where st2: "st2 = (a2, dw2, m2)" by (cases st2)
    from operation_grows [OF op [unfolded st1 st2]] p show "?P st2"
      unfolding st1 st2 by (auto intro: grows_trans)
  next
    fix a1 dw1 m1
    assume "?P (a1, dw1, m1)"
    then show "?P (a1, emit EvBackOff dw1, m1)" by (simp add: grows_emit)
  qed
  then show ?thesis by simp
qed

lemma asyncSettingsOf_nonempty: "asyncSettingsOf cfg \<noteq> []"
  by (simp add: asyncSettingsOf_def)

lemma flushSettings_uint:
  "flushSettings K ops bf dw =
     (if uint (FlowCount ops bf) \<le> uint (MaximumBatchSize (dw_config dw)) div uint K
      then dw_asyncSettings dw else [])"
  by (simp add: flushSettings_def word_le_def uint_div)

lemma permOK_envOK: "permOK envOK"
  by (simp add: permOK_def envOK_def)

lemma demo_single:
  "flushSingleDestination 1 10 listOps envOK ''x'' [0, 1, 2, 3, 4, 5, 6, 7, 8, 9]
     (newDestinationWriter (demoDest ''primary'' [''a''] 0 100 5000000000)) noMetrics =
   Some (Returned (None, 1,
     demoSent (demoDest ''primary'' [''a''] 0 100 5000000000) ''a'' [0, 1, 2, 3, 4, 5, 6, 7, 8, 9],
     noMetrics\<lparr>m_flows := [(''primary'', 10)], m_insertTime := [''primary'']\<rparr>))"
  by (simp add: demo_defs word_le_def)

section \<open>An empty server list\<close>

text \<open>
  Claim C10. With an empty server list and no live connection,
  \<^verbatim>\<open>connectDestination\<close> returns no error and leaves the writer without a connection;
  the first attempt of \<^verbatim>\<open>flushSingleDestination\<close> then sends on the absent connection
  and panics. \<^verbatim>\<open>connectDestination\<close> returns an error only for a writer whose server
  list is not empty.
\<close>

theorem C10_empty_server_list:
  fixes ops :: "('b, 'p) FlowMessageOps" and env :: "'p netenv"
  assumes "permOK env" and "dw_servers dw = []" and "dw_conn dw = None"
  shows "connectDestination env dw = (None, dw)
       \<and> flushSingleDestination (Suc fuel) K ops env hash bf dw m = Some Panicked
       \<and> (\<forall>dw1 e dw2. connectDestination env dw1 = (Some e, dw2) \<longrightarrow> dw_servers dw1 \<noteq> [])"
proof -
  have perm: "permRes env (dw_name dw) (dw_trace dw) (length (dw_servers dw)) = []"
    using permOK_Nil [OF assms(1)] assms(2) by simp
  have c: "connectDestination env dw = (None, dw)"
    using assms(3) perm by (simp add: connectDestination_def Let_def)
  let ?maxA = "if dw_maxRetries dw = 0 then - 1 else dw_maxRetries dw"
  have guard: "\<not> exhausted ?maxA 0" by (auto simp: exhausted_def)
  have "fst (operation ops env hash bf (flushSettings K ops bf dw) ?maxA (0, dw, m)) = OpPanic"
    by (simp only: operation_panic [OF guard c assms(3)] fst_conv)
  then have "flushSingleDestination (Suc fuel) K ops env hash bf dw m = Some Panicked"
    unfolding flushSingleDestination_def Let_def
    by (cases "operation ops env hash bf (flushSettings K ops bf dw) ?maxA (0, dw, m)") simp
  moreover have "\<forall>dw1 e dw2. connectDestination env dw1 = (Some e, dw2) \<longrightarrow> dw_servers dw1 \<noteq> []"
    using connectDestination_Some [OF assms(1)] by blast
  ultimately show ?thesis using c by blast
qed

theorem C10_empty_server_list_witness:
  "permOK (envOK :: nat list netenv) \<and> dw_servers writerEmpty = [] \<and> dw_conn writerEmpty = None
   \<and> connectDestination envOK writerEmpty = (None, writerEmpty)
   \<and> flushSingleDestination (Suc 0) 10 listOps envOK ''x'' [7] writerEmpty noMetrics = Some Panicked"
proof -
  have h2: "dw_servers writerEmpty = []" and h3: "dw_conn writerEmpty = None"
    by (simp_all add: writerEmpty_def newDestinationWriter_def demoDest_def)
  from C10_empty_server_list [OF permOK_envOK h2 h3, where fuel = 0 and K = 10 and ops = listOps
      and hash = "''x''" and bf = "[7]" and m = noMetrics]
  show ?thesis using permOK_envOK h2 h3 by blast
qed

section \<open>The tasks of a flush\<close>

lemma demo_partial:
  "Flush (Suc (Suc (Suc (Suc 0)))) 10 listOps envAzureDown workerDemo = Some (Returned workerDemo_partial)"
  by (simp add: demo_defs workerDemo_partial_def envAzureDown_def word_le_def)

lemma sends_simps [simp]:
  "sends [] = 0" "sends (evs @ evs') = sends evs + sends evs'"
  "sends (EvDo a t b i s r # evs) = Suc (sends evs)"
  "sends (EvProtoInput # evs) = sends evs" "sends (EvBackOff # evs) = sends evs"
  "sends (EvClose a # evs) = sends evs" "sends (EvDial a r # evs) = sends evs"
  "sends (EvPing a r # evs) = sends evs"
  by (simp_all add: sends_def)

lemma protoReads_simps [simp]:
  "protoReads [] = 0" "protoReads (evs @ evs') = protoReads evs + protoReads evs'"
  "protoReads (EvDo a t b i s r # evs) = protoReads evs"
  "protoReads (EvProtoInput # evs) = Suc (protoReads evs)" "protoReads (EvBackOff # evs) = protoReads evs"
  "protoReads (EvClose a # evs) = protoReads evs" "protoReads (EvDial a r # evs) = protoReads evs"
  "protoReads (EvPing a r # evs) = protoReads evs"
  by (simp_all add: protoReads_def)

lemma isConnEv_counts: "list_all isConnEv evs \<Longrightarrow> sends evs = 0 \<and> protoReads evs = 0"
proof (induction evs)
  case Nil
  then show ?case by simp
next
  case (Cons e evs)
  then show ?case by (cases e) simp_all
qed

lemma connectDestination_counts:
  assumes "connectDestination env dw = (r, dw')"
  shows "sends (dw_trace dw') = sends (dw_trace dw) \<and> protoReads (dw_trace dw') = protoReads (dw_trace dw)"
proof -
  from connectDestination_grows [OF assms] obtain evs where
    "dw_trace dw' = dw_trace dw @ evs" "list_all isConnEv evs"
    by (auto simp: grows_def)
  with isConnEv_counts [of evs] show ?thesis by simp
qed

text \<open>An attempt that does not panic reads the batch twice for each send.\<close>

lemma operation_balance:
  assumes "operation ops env hash bf s maxA (a, dw, m) = (r, a', dw', m')" and "r \<noteq> OpPanic"
  shows "protoReads (dw_trace dw') + 2 * sends (dw_trace dw)
           = protoReads (dw_trace dw) + 2 * sends (dw_trace dw')"
proof (cases rule: operation_cases [of maxA a ops env hash bf s dw m])
  case exhausted
  with assms show ?thesis by simp
next
  case (connErr err dw1)
  with assms connectDestination_counts [OF connErr(2)] show ?thesis by simp
next
  case (panic dw1)
  with assms show ?thesis by simp
next
  case (sendErr dw1 addr e)
  with assms connectDestination_counts [OF sendErr(2)] show ?thesis by auto
next
  case (ok dw1 addr)
  with assms connectDestination_counts [OF ok(2)] show ?thesis by auto
qed

lemma Retry_inv':
  assumes "Retry fuel ops env hash bf s maxA st = Some (Returned (e, st'))"
      and "P st"
      and step: "\<And>st1 r st2. P st1 \<Longrightarrow> operation ops env hash bf s maxA st1 = (r, st2)
                   \<Longrightarrow> r \<noteq> OpPanic \<Longrightarrow> P st2"
      and sleep: "\<And>a dw m. P (a, dw, m) \<Longrightarrow> P (a, emit EvBackOff dw, m)"
  shows "P st'"
  using assms(1,2)
proof (induction fuel arbitrary: st)
  case 0
  then show ?case by simp
next
  case (Suc fuel)
  obtain r a1 dw1 m1 where op: "operation ops env hash bf s maxA st = (r, a1, dw1, m1)"
    by (metis prod_cases4)
  from Suc.prems(1) op have np: "r \<noteq> OpPanic" by auto
  from step [OF Suc.prems(2) op np] have p1: "P (a1, dw1, m1)" .
  show ?case
  proof (cases r)
    case OpOK
    with Suc.prems(1) op p1 show ?thesis by simp
  next
    case (OpErr err)
    show ?thesis
    proof (cases "ctxDone env (dw_name dw1) (dw_trace dw1)")
      case True
      with Suc.prems(1) op p1 OpErr show ?thesis by simp
    next
      case nd: False
      show ?thesis
      proof (cases "ctxDone env (dw_name (emit EvBackOff dw1)) (dw_trace (emit EvBackOff dw1))")
        case True
        with Suc.prems(1) op OpErr nd sleep [OF p1] show ?thesis by (simp add: Let_def)
      next
        case False
        with Suc.prems(1) op OpErr nd
        have "Retry fuel ops env hash bf s maxA (a1, emit EvBackOff dw1, m1)
                = Some (Returned (e, st'))"
          by (simp add: Let_def)
        from Suc.IH [OF this sleep [OF p1]] show ?thesis .
      qed
    qed
  next
    case (OpPermanent err)
    with Suc.prems(1) op p1 show ?thesis by simp
  next
    case OpPanic
    with np show ?thesis by simp
  qed
qed

lemma Retry_balance:
  fixes dw :: "'p destinationWriter"
  assumes "Retry fuel ops env hash bf s maxA (a, dw, m) = Some (Returned (e, a', dw', m'))"
  shows "protoReads (dw_trace dw') + 2 * sends (dw_trace dw)
           = protoReads (dw_trace dw) + 2 * sends (dw_trace dw')"
proof -
  let ?P = "\<lambda>st :: int \<times> 'p destinationWriter \<times> metrics.
           protoReads (dw_trace (fst (snd st))) + 2 * sends (dw_trace dw)
           = protoReads (dw_trace dw) + 2 * sends (dw_trace (fst (snd st)))"
  have "?P (a', dw', m')"
  proof (rule Retry_inv' [OF assms, where P = ?P])
    show "?P (a, dw, m)" by simp
  next
    fix st1 r st2
    assume p: "?P st1" and op: "operation ops env hash bf s maxA st1 = (r, st2)" and np: "r \<noteq> OpPanic"
    obtain a1 dw1 m1 where st1: "st1 = (a1, dw1, m1)" by (cases st1)
    obtain a2 dw2 m2 where st2: "st2 = (a2, dw2, m2)" by (cases st2)
    from operation_balance [OF op [unfolded st1 st2] np] p show "?P st2"
      unfolding st1 st2 by simp
  next
    fix a1 dw1 m1
    assume "?P (a1, dw1, m1)"
    then show "?P (a1, emit EvBackOff dw1, m1)" by simp
  qed
  then show ?thesis by simp
qed

lemma sentBy_refl: "sentBy p table dw dw"
  by (simp add: sentBy_def)

lemma flushSingleDestination_sentBy:
  assumes "flushSingleDestination fuel K ops env hash bf dw m = Some (Returned (err, n, dw', m'))"
  shows "sentBy (ClickHouseProtoInput ops bf) (''flows_'' @ hash @ ''_raw'') dw dw'"
proof -
  let ?s = "flushSettings K ops bf dw"
  let ?maxA = "if dw_maxRetries dw = 0 then - 1 else dw_maxRetries dw"
  from assms have r: "Retry fuel ops env hash bf ?s ?maxA (0, dw, m) = Some (Returned (err, n, dw', m'))"
    by (simp add: flushSingleDestination_def Let_def)
  from Retry_grows [OF r] obtain evs where tr: "dw_trace dw' = dw_trace dw @ evs"
      and good: "list_all (flushEv (ClickHouseProtoInput ops bf) (''flows_'' @ hash @ ''_raw'') ?s) evs"
    by (auto simp: grows_def)
  from Retry_balance [OF r] tr have "protoReads evs = 2 * sends evs" by simp
  moreover from good have "\<forall>a t b i s r. EvDo a t b i s r \<in> set evs \<longrightarrow>
      t = ''flows_'' @ hash @ ''_raw'' \<and> b = ClickHouseProtoInput ops bf \<and> i = ClickHouseProtoInput ops bf"
    by (auto simp: list_all_iff)
  ultimately show ?thesis using tr unfolding sentBy_def by blast
qed

lemma flushAll_sentBy:
  assumes "flushAll fuel K ops env hash bf dws m = Some (Returned (errs, dws', m'))"
  shows "list_all2 (sentBy (ClickHouseProtoInput ops bf) (''flows_'' @ hash @ ''_raw'')) dws dws'"
  using assms
proof (induction dws arbitrary: m errs dws')
  case Nil
  then show ?case by simp
next
  case (Cons dw dws)
  from Cons.prems obtain e a dw1 m1 errs1 dws1 where
    one: "flushSingleDestination fuel K ops env hash bf dw m = Some (Returned (e, a, dw1, m1))"
    and rest: "flushAll fuel K ops env hash bf dws m1 = Some (Returned (errs1, dws1, m'))"
    and eq: "dws' = dw1 # dws1"
    by (auto split: option.splits outcome.splits prod.splits)
  from flushSingleDestination_sentBy [OF one] Cons.IH [OF rest] eq show ?case by simp
qed

lemma flushAll_settled:
  assumes "flushAll fuel K ops env hash bf dws m = Some (Returned (errs, dws', m'))"
  shows "length errs = length dws \<and> length dws' = length dws
       \<and> (\<forall>i<length dws. \<exists>m0 n m1.
             flushSingleDestination fuel K ops env hash bf (dws ! i) m0
               = Some (Returned (errs ! i, n, dws' ! i, m1)))"
  using assms
proof (induction dws arbitrary: m errs dws')
  case Nil
  then show ?case by simp
next
  case (Cons dw dws)
  from Cons.prems obtain e a dw1 m1 errs1 dws1 where
    one: "flushSingleDestination fuel K ops env hash bf dw m = Some (Returned (e, a, dw1, m1))"
    and rest: "flushAll fuel K ops env hash bf dws m1 = Some (Returned (errs1, dws1, m'))"
    and eq: "dws' = dw1 # dws1" "errs = e # errs1"
    by (auto split: option.splits outcome.splits prod.splits)
  note ih = Cons.IH [OF rest]
  have "\<exists>m0 n m1. flushSingleDestination fuel K ops env hash bf ((dw # dws) ! i) m0
               = Some (Returned (errs ! i, n, dws' ! i, m1))" if "i < length (dw # dws)" for i
  proof (cases i)
    case 0
    with one eq show ?thesis by auto
  next
    case (Suc j)
    with that ih eq show ?thesis by auto
  qed
  with ih eq show ?case by simp
qed

lemma Flush_empty:
  "FlowCount ops (w_bf w) = 0 \<Longrightarrow>
   Flush fuel K ops env w = Some (Returned (w\<lparr>w_flushCalls := w_flushCalls w + 1\<rparr>))"
  by (simp add: Flush_def Let_def)

lemma Flush_nonempty:
  "FlowCount ops (w_bf w) \<noteq> 0 \<Longrightarrow>
   Flush fuel K ops env w =
     (case flushAll fuel K ops env (c_schemaHash (w_c w)) (w_bf w) (w_destWriters w)
             (c_metrics (w_c w)) of
        None \<Rightarrow> None
      | Some Panicked \<Rightarrow> Some Panicked
      | Some (Returned (errs, dws1, m1)) \<Rightarrow>
          Some (Returned (w\<lparr>w_flushCalls := w_flushCalls w + 1,
                            w_c := (w_c w)\<lparr>c_metrics := m1\<rparr>,
                            w_destWriters := dws1,
                            w_bf := Clear ops (w_bf w)\<rparr>)))"
  by (simp add: Flush_def Let_def split: option.splits outcome.splits)

lemma Flush_count:
  assumes "\<forall>b. FlowCount ops (Clear ops b) = 0" and "Flush fuel K ops env w = Some (Returned w')"
  shows "FlowCount ops (w_bf w') = 0"
proof (cases "FlowCount ops (w_bf w) = 0")
  case True
  with assms(2) have "w' = w\<lparr>w_flushCalls := w_flushCalls w + 1\<rparr>" by (simp add: Flush_empty)
  with True show ?thesis by simp
next
  case False
  with assms show ?thesis
    by (auto simp: Flush_nonempty split: option.splits outcome.splits)
qed

lemma inc_bf [simp]:
  "w_bf (incOverloaded w) = w_bf w" "w_bf (incUnderloaded w) = w_bf w"
  by (simp_all add: incOverloaded_def incUnderloaded_def)

section \<open>Clearing the batch\<close>

text \<open>
  Claim C3. Provided \<^verbatim>\<open>Clear\<close> resets the count of the batch to zero: after any
  \<^verbatim>\<open>Flush\<close> that returns, forced or triggered by \<^verbatim>\<open>FinalizeAndSend\<close>, the count is
  zero. On a batch that is not empty \<^verbatim>\<open>Flush\<close> returns only when every task has settled:
  it does not return while a task has not, and once all have it returns the worker
  with the batch cleared, whatever errors the tasks returned; the errors are not part of
  what \<^verbatim>\<open>Flush\<close> returns.
\<close>

theorem C3_buffer_cleared:
  fixes ops :: "('b, 'p) FlowMessageOps" and env :: "'p netenv" and w :: "('b, 'p) realWorker"
  assumes "\<forall>b. FlowCount ops (Clear ops b) = 0"
  shows "(\<forall>w'. Flush fuel K ops env w = Some (Returned w') \<longrightarrow> FlowCount ops (w_bf w') = 0)
       \<and> (\<forall>s w'. flushTriggered (FlowCount ops (Finalize ops (w_bf w))) (time_Sub now (w_last w))
                    (primaryConfig (w_c w)) \<longrightarrow>
                 FinalizeAndSend fuel K ops env now now2 w = Some (Returned (s, w')) \<longrightarrow>
                 FlowCount ops (w_bf w') = 0)
       \<and> (FlowCount ops (w_bf w) \<noteq> 0 \<longrightarrow>
            (case flushAll fuel K ops env (c_schemaHash (w_c w)) (w_bf w) (w_destWriters w)
                    (c_metrics (w_c w)) of
               None \<Rightarrow> Flush fuel K ops env w = None
             | Some Panicked \<Rightarrow> Flush fuel K ops env w = Some Panicked
             | Some (Returned (errs, dws', m')) \<Rightarrow>
                 Flush fuel K ops env w =
                   Some (Returned (w\<lparr>w_flushCalls := w_flushCalls w + 1,
                                     w_c := (w_c w)\<lparr>c_metrics := m'\<rparr>,
                                     w_destWriters := dws',
                                     w_bf := Clear ops (w_bf w)\<rparr>))
                 \<and> length errs = length (w_destWriters w)
                 \<and> (\<forall>i<length (w_destWriters w). \<exists>m0 n m1.
                       flushSingleDestination fuel K ops env (c_schemaHash (w_c w)) (w_bf w)
                         (w_destWriters w ! i) m0
                       = Some (Returned (errs ! i, n, dws' ! i, m1)))))"
proof (intro conjI allI impI)
  fix w'
  assume "Flush fuel K ops env w = Some (Returned w')"
  from Flush_count [OF assms this] show "FlowCount ops (w_bf w') = 0" .
next
  fix s w'
  assume trig: "flushTriggered (FlowCount ops (Finalize ops (w_bf w))) (time_Sub now (w_last w))
                    (primaryConfig (w_c w))"
    and ret: "FinalizeAndSend fuel K ops env now now2 w = Some (Returned (s, w'))"
  from ret obtain w2 where
    f: "Flush fuel K ops env (recordWaitTime now (w\<lparr>w_bf := Finalize ops (w_bf w)\<rparr>)) = Some (Returned w2)"
    and w': "w' = incOverloaded (w2\<lparr>w_last := now2\<rparr>) \<or> w' = incUnderloaded (w2\<lparr>w_last := now2\<rparr>)
             \<or> w' = w2\<lparr>w_last := now2\<rparr>"
    unfolding FinalizeAndSend_flush [OF trig]
    by (auto split: option.splits outcome.splits if_splits)
  from Flush_count [OF assms f] w' show "FlowCount ops (w_bf w') = 0" by auto
next
  assume ne: "FlowCount ops (w_bf w) \<noteq> 0"
  show "case flushAll fuel K ops env (c_schemaHash (w_c w)) (w_bf w) (w_destWriters w)
                    (c_metrics (w_c w)) of
               None \<Rightarrow> Flush fuel K ops env w = None
             | Some Panicked \<Rightarrow> Flush fuel K ops env w = Some Panicked
             | Some (Returned (errs, dws', m')) \<Rightarrow>
                 Flush fuel K ops env w =
                   Some (Returned (w\<lparr>w_flushCalls := w_flushCalls w + 1,
                                     w_c := (w_c w)\<lparr>c_metrics := m'\<rparr>,
                                     w_destWriters := dws',
                                     w_bf := Clear ops (w_bf w)\<rparr>))
                 \<and> length errs = length (w_destWriters w)
                 \<and> (\<forall>i<length (w_destWriters w). \<exists>m0 n m1.
                       flushSingleDestination fuel K ops env (c_schemaHash (w_c w)) (w_bf w)
                         (w_destWriters w ! i) m0
                       = Some (Returned (errs ! i, n, dws' ! i, m1)))"
    unfolding Flush_nonempty [OF ne]
    by (auto split: option.splits outcome.splits dest: flushAll_settled)
qed

theorem C3_buffer_cleared_witness:
  "(\<forall>b. FlowCount listOps (Clear listOps b) = 0)
   \<and> Flush (Suc (Suc (Suc (Suc 0)))) 10 listOps envAzureDown workerDemo = Some (Returned workerDemo_partial)
   \<and> FlowCount listOps (w_bf workerDemo_partial) = 0"
proof -
  have h: "\<forall>b. FlowCount listOps (Clear listOps b) = 0" by (simp add: listOps_def)
  from C3_buffer_cleared [OF h, where fuel = "Suc (Suc (Suc (Suc 0)))" and K = 10 and env = envAzureDown
      and w = workerDemo and now = 0 and ?now2.0 = 0] demo_partial
  have "FlowCount listOps (w_bf workerDemo_partial) = 0" by blast
  with h demo_partial show ?thesis by blast
qed

section \<open>The payload of a flush\<close>

text \<open>
  Claim C4, as amended. Within one flush every send of every destination writer
  carries the same payload, the \<^verbatim>\<open>ClickHouseProtoInput\<close> of the batch as it was when
  \<^verbatim>\<open>Flush\<close> was called, and the same table, whatever its settings; each writer calls
  \<^verbatim>\<open>ClickHouseProtoInput\<close> twice for every send it makes.
\<close>

theorem C4_identical_payload:
  fixes ops :: "('b, 'p) FlowMessageOps" and env :: "'p netenv"
  assumes "Flush fuel K ops env w = Some (Returned w')"
  shows "list_all2
           (\<lambda>dw dw'. \<exists>evs. dw_trace dw' = dw_trace dw @ evs
              \<and> (\<forall>a t b i s r. EvDo a t b i s r \<in> set evs \<longrightarrow>
                    t = ''flows_'' @ c_schemaHash (w_c w) @ ''_raw''
                    \<and> b = ClickHouseProtoInput ops (w_bf w) \<and> i = ClickHouseProtoInput ops (w_bf w))
              \<and> protoReads evs = 2 * sends evs)
           (w_destWriters w) (w_destWriters w')"
proof (cases "FlowCount ops (w_bf w) = 0")
  case True
  with assms have "w_destWriters w' = w_destWriters w" by (auto simp: Flush_empty)
  moreover have "list_all2 (sentBy (ClickHouseProtoInput ops (w_bf w))
      (''flows_'' @ c_schemaHash (w_c w) @ ''_raw'')) (w_destWriters w) (w_destWriters w)"
    by (simp add: list_all2_same sentBy_refl)
  ultimately show ?thesis by (simp add: sentBy_def [abs_def])
next
  case False
  with assms obtain errs m' where
    "flushAll fuel K ops env (c_schemaHash (w_c w)) (w_bf w) (w_destWriters w) (c_metrics (w_c w))
       = Some (Returned (errs, w_destWriters w', m'))"
    by (auto simp: Flush_nonempty split: option.splits outcome.splits)
  from flushAll_sentBy [OF this] show ?thesis by (simp add: sentBy_def [abs_def])
qed

theorem C4_identical_payload_witness:
  "Flush (Suc (Suc (Suc (Suc 0)))) 10 listOps envAzureDown workerDemo = Some (Returned workerDemo_partial)
   \<and> list_all2
           (\<lambda>dw dw'. \<exists>evs. dw_trace dw' = dw_trace dw @ evs
              \<and> (\<forall>a t b i s r. EvDo a t b i s r \<in> set evs \<longrightarrow>
                    t = ''flows_'' @ c_schemaHash (w_c workerDemo) @ ''_raw''
                    \<and> b = ClickHouseProtoInput listOps (w_bf workerDemo)
                    \<and> i = ClickHouseProtoInput listOps (w_bf workerDemo))
              \<and> protoReads evs = 2 * sends evs)
           (w_destWriters workerDemo) (w_destWriters workerDemo_partial)"
  using C4_identical_payload [OF demo_partial] demo_partial by blast

text \<open>
  The claim as stated fails: in a flush to two destinations that both succeed at once,
  \<^verbatim>\<open>ClickHouseProtoInput\<close> is called twice by each writer, not once for the flush.
\<close>

theorem C4_counterexample:
  "FinalizeAndSend 1 10 listOps envOK (unixEpoch + 6000000000) (unixEpoch + 6000000001) workerDemo =
     Some (Returned (WorkerStatusUnderloaded, workerDemo_flushed))
   \<and> map (\<lambda>dw. protoReads (dw_trace dw)) (w_destWriters workerDemo) = [0, 0]
   \<and> map (\<lambda>dw. protoReads (dw_trace dw)) (w_destWriters workerDemo_flushed) = [2, 2]"
  using demo_flush by (simp add: demo_defs)

section \<open>Destinations that fail and destinations that answer\<close>

lemma grows_name: "grows good dw dw' \<Longrightarrow> dw_name dw' = dw_name dw"
  by (simp add: grows_def)

lemma grows_servers: "grows good dw dw' \<Longrightarrow> dw_servers dw' = dw_servers dw"
  by (simp add: grows_def)

lemma grows_length: "grows good dw dw' \<Longrightarrow> length (dw_trace dw) \<le> length (dw_trace dw')"
  by (auto simp: grows_def)

text \<open>An attempt on a destination whose sends fail: an error, counted once.\<close>

lemma operation_fails:
  assumes sf: "sendsFail env (dw_name dw)" and perm: "permOK env" and srv: "dw_servers dw \<noteq> []"
      and ne: "\<not> exhausted maxA a"
  obtains err dw1 phase where
    "operation ops env hash bf s maxA (a, dw, m) =
       (OpErr err, a + 1, dw1, m\<lparr>m_errors := m_errors m @ [(dw_name dw, phase)]\<rparr>)"
    "dw_name dw1 = dw_name dw" "dw_servers dw1 = dw_servers dw"
    "length (dw_trace dw) \<le> length (dw_trace dw1)"
proof (cases rule: operation_cases [of maxA a ops env hash bf s dw m])
  case exhausted
  with ne show ?thesis by simp
next
  case (connErr err dw1)
  note g = connectDestination_grows [OF connErr(2)]
  from connErr(3) grows_name [OF g] grows_servers [OF g] grows_length [OF g]
  show ?thesis by (intro that [of err dw1 "''connect''"]) simp_all
next
  case (panic dw1)
  from connectDestination_None [OF perm panic(2)] panic(3) srv show ?thesis by simp
next
  case (sendErr dw1 addr e)
  note g = connectDestination_grows [OF sendErr(2)]
  let ?dw2 = "(emit (EvClose addr)
             (emit (EvDo addr (''flows_'' @ hash @ ''_raw'') (ClickHouseProtoInput ops bf)
                      (ClickHouseProtoInput ops bf) s (Some (IOError e)))
                (emit EvProtoInput (emit EvProtoInput dw1))))\<lparr>dw_conn := None\<rparr>"
  from sendErr(5) grows_name [OF g] grows_servers [OF g] grows_length [OF g]
  show ?thesis
    by (intro that [of "IOError e" ?dw2 "''send''"]) simp_all
next
  case (ok dw1 addr)
  note g = connectDestination_grows [OF ok(2)]
  from sf have "doRes env (dw_name dw) (dw_trace dw1 @ [EvProtoInput, EvProtoInput]) addr \<noteq> None"
    unfolding sendsFail_def by blast
  with ok(4) grows_name [OF g] show ?thesis by simp
qed

text \<open>On a destination that answers, connecting succeeds.\<close>

lemma tryServers_ok:
  assumes "destOK env (dw_name dw)" and "perm \<noteq> []"
  shows "\<exists>dw'. tryServers env perm lastErr dw = (None, dw')"
proof (cases perm)
  case Nil
  with assms show ?thesis by simp
next
  case (Cons idx rest)
  with assms(1) show ?thesis by (simp add: destOK_def Let_def)
qed

lemma connectDestination_ok:
  assumes ok: "destOK env (dw_name dw)" and perm: "permOK env" and srv: "dw_servers dw \<noteq> []"
  shows "\<exists>dw'. connectDestination env dw = (None, dw')"
proof (cases "dw_conn dw")
  case None
  from srv permOK_Nil [OF perm]
  have "permRes env (dw_name dw) (dw_trace dw) (length (dw_servers dw)) \<noteq> []" by simp
  from tryServers_ok [OF ok this] None show ?thesis
    by (simp add: connectDestination_def Let_def)
next
  case (Some a)
  with ok show ?thesis by (simp add: connectDestination_def destOK_def Let_def)
qed

lemma operation_succeeds:
  assumes ok: "destOK env (dw_name dw)" and perm: "permOK env" and srv: "dw_servers dw \<noteq> []"
      and ne: "\<not> exhausted maxA a"
  obtains dw1 where
    "operation ops env hash bf s maxA (a, dw, m) =
       (OpOK, a + 1, dw1,
        m\<lparr>m_insertTime := m_insertTime m @ [dw_name dw],
          m_flows := m_flows m @ [(dw_name dw, FlowCount ops bf)]\<rparr>)"
proof (cases rule: operation_cases [of maxA a ops env hash bf s dw m])
  case exhausted
  with ne show ?thesis by simp
next
  case (connErr err dw1)
  with connectDestination_ok [OF ok perm srv] show ?thesis by simp
next
  case (panic dw1)
  from connectDestination_None [OF perm panic(2)] panic(3) srv show ?thesis by simp
next
  case (sendErr dw1 addr e)
  note g = connectDestination_grows [OF sendErr(2)]
  from sendErr(4) ok grows_name [OF g] show ?thesis by (simp add: destOK_def)
next
  case (ok dw1 addr)
  note g = connectDestination_grows [OF ok(2)]
  from ok(5) grows_name [OF g] show ?thesis by (intro that) simp
qed

section \<open>The retry limit\<close>

lemma Retry_Suc_ok:
  "operation ops env hash bf s maxA st = (OpOK, st1) \<Longrightarrow>
   Retry (Suc fuel) ops env hash bf s maxA st = Some (Returned (None, st1))"
  by simp

lemma Retry_Suc_permanent:
  "operation ops env hash bf s maxA st = (OpPermanent err, st1) \<Longrightarrow>
   Retry (Suc fuel) ops env hash bf s maxA st = Some (Returned (Some err, st1))"
  by simp

lemma Retry_Suc_panic:
  "operation ops env hash bf s maxA st = (OpPanic, st1) \<Longrightarrow>
   Retry (Suc fuel) ops env hash bf s maxA st = Some Panicked"
  by simp

lemma Retry_Suc_err:
  "operation ops env hash bf s maxA st = (OpErr err, a1, dw1, m1) \<Longrightarrow>
   Retry (Suc fuel) ops env hash bf s maxA st =
     (if ctxDone env (dw_name dw1) (dw_trace dw1)
      then Some (Returned (Some ContextErr, a1, dw1, m1))
      else if ctxDone env (dw_name dw1) (dw_trace dw1 @ [EvBackOff])
      then Some (Returned (Some ContextErr, a1, emit EvBackOff dw1, m1))
      else Retry fuel ops env hash bf s maxA (a1, emit EvBackOff dw1, m1))"
  by (simp add: Let_def)

lemma attemptsMade_simps [simp]:
  "attemptsMade (m\<lparr>m_errors := m_errors m @ [x]\<rparr>) = Suc (attemptsMade m)"
  "attemptsMade (m\<lparr>m_insertTime := m_insertTime m @ [y], m_flows := fl\<rparr>) = Suc (attemptsMade m)"
  "attemptsMade (m\<lparr>m_retriesExceeded := re\<rparr>) = attemptsMade m"
  by (simp_all add: attemptsMade_def)

text \<open>
  With a positive limit: the counter ends at most one above the limit; it ends there
  exactly when the limit was exceeded, and then the attempts made are as many as the
  limit allows.
\<close>

lemma Retry_cap:
  assumes "0 < maxA" and "a \<le> maxA"
      and "Retry fuel ops env hash bf s maxA (a, dw, m) = Some (Returned (e, a', dw', m'))"
  shows "a < a' \<and> a' \<le> maxA + 1
       \<and> (if a' = maxA + 1
           then e = Some (MaxRetriesExceeded maxA (dw_name dw))
              \<and> m_retriesExceeded m' = m_retriesExceeded m @ [dw_name dw]
              \<and> attemptsMade m' = attemptsMade m + nat (maxA - a)
           else (e = None \<or> e = Some ContextErr)
              \<and> m_retriesExceeded m' = m_retriesExceeded m
              \<and> attemptsMade m' = attemptsMade m + nat (a' - a))"
  using assms(2,3)
proof (induction fuel arbitrary: a dw m)
  case 0
  then show ?case by simp
next
  case (Suc fuel)
  note ret = Suc.prems(2)
  have err_case: ?case
    if op: "operation ops env hash bf s maxA (a, dw, m) = (OpErr err, a + 1, dw1, m1)"
      and ne: "\<not> exhausted maxA a" and nm: "dw_name dw1 = dw_name dw"
      and am: "attemptsMade m1 = Suc (attemptsMade m)"
      and re: "m_retriesExceeded m1 = m_retriesExceeded m"
    for err dw1 m1
  proof -
    from ne assms(1) have lt: "a + 1 \<le> maxA" by (simp add: exhausted_def)
    note unf = Retry_Suc_err [OF op, of fuel]
    show ?thesis
    proof (cases "ctxDone env (dw_name dw1) (dw_trace dw1)")
      case True
      with ret unf lt am re show ?thesis by auto
    next
      case nd: False
      show ?thesis
      proof (cases "ctxDone env (dw_name dw1) (dw_trace dw1 @ [EvBackOff])")
        case True
        with ret unf nd lt am re show ?thesis by auto
      next
        case False
        with ret unf nd
        have r: "Retry fuel ops env hash bf s maxA (a + 1, emit EvBackOff dw1, m1)
                   = Some (Returned (e, a', dw', m'))"
          by simp
        from Suc.IH [OF lt r] nm am re lt Suc.prems(1) show ?thesis
          by (auto split: if_splits simp: nat_diff_distrib)
      qed
    qed
  qed
  show ?case
  proof (cases rule: operation_cases [of maxA a ops env hash bf s dw m])
    case exhausted
    from exhausted(1) Suc.prems(1) have "a = maxA" by (simp add: exhausted_def)
    with ret Retry_Suc_permanent [OF exhausted(2), of fuel] show ?thesis by auto
  next
    case (connErr err dw1)
    note g = connectDestination_grows [OF connErr(2)]
    show ?thesis
      by (rule err_case [OF connErr(3) connErr(1) grows_name [OF g]]) simp_all
  next
    case (panic dw1)
    with ret Retry_Suc_panic [OF panic(4), of fuel] show ?thesis by simp
  next
    case (sendErr dw1 addr e1)
    note g = connectDestination_grows [OF sendErr(2)]
    show ?thesis
      by (rule err_case [OF sendErr(5) sendErr(1)]) (simp_all add: grows_name [OF g])
  next
    case (ok dw1 addr)
    from ok(1) assms(1) have lt: "a + 1 \<le> maxA" by (simp add: exhausted_def)
    with ret Retry_Suc_ok [OF ok(5), of fuel] show ?thesis by auto
  qed
qed

lemma Retry_total:
  assumes "0 < maxA" and "a \<le> maxA" and "nat (maxA - a) < fuel"
  shows "Retry fuel ops env hash bf s maxA (a, dw, m) \<noteq> None"
  using assms(2,3)
proof (induction fuel arbitrary: a dw m)
  case 0
  then show ?case by simp
next
  case (Suc fuel)
  have err_case: ?case
    if op: "operation ops env hash bf s maxA (a, dw, m) = (OpErr err, a + 1, dw1, m1)"
      and ne: "\<not> exhausted maxA a" for err dw1 m1
  proof -
    from ne assms(1) have lt: "a + 1 \<le> maxA" by (simp add: exhausted_def)
    with Suc.prems have "nat (maxA - (a + 1)) < fuel" by simp
    from Suc.IH [OF lt this] show ?thesis
      unfolding Retry_Suc_err [OF op] by simp
  qed
  show ?case
  proof (cases rule: operation_cases [of maxA a ops env hash bf s dw m])
    case exhausted
    then show ?thesis by simp
  next
    case (connErr err dw1)
    from err_case [OF connErr(3) connErr(1)] show ?thesis .
  next
    case (panic dw1)
    then show ?thesis by simp
  next
    case (sendErr dw1 addr e1)
    from err_case [OF sendErr(5) sendErr(1)] show ?thesis .
  next
    case (ok dw1 addr)
    then show ?thesis by simp
  qed
qed

text \<open>Without a positive limit no attempt is beyond it.\<close>

lemma Retry_unlimited:
  assumes "maxA \<le> 0"
      and "Retry fuel ops env hash bf s maxA (a, dw, m) = Some (Returned (e, a', dw', m'))"
  shows "(e = None \<or> e = Some ContextErr) \<and> m_retriesExceeded m' = m_retriesExceeded m"
  using assms(2)
proof (induction fuel arbitrary: a dw m)
  case 0
  then show ?case by simp
next
  case (Suc fuel)
  note ret = Suc.prems
  from assms(1) have ne: "\<not> exhausted maxA a" by (simp add: exhausted_def)
  have err_case: ?case
    if op: "operation ops env hash bf s maxA (a, dw, m) = (OpErr err, a + 1, dw1, m1)"
      and re: "m_retriesExceeded m1 = m_retriesExceeded m" for err dw1 m1
  proof -
    note unf = Retry_Suc_err [OF op, of fuel]
    show ?thesis
    proof (cases "ctxDone env (dw_name dw1) (dw_trace dw1)")
      case True
      with ret unf re show ?thesis by auto
    next
      case nd: False
      show ?thesis
      proof (cases "ctxDone env (dw_name dw1) (dw_trace dw1 @ [EvBackOff])")
        case True
        with ret unf nd re show ?thesis by auto
      next
        case False
        with ret unf nd
        have "Retry fuel ops env hash bf s maxA (a + 1, emit EvBackOff dw1, m1)
                   = Some (Returned (e, a', dw', m'))"
          by simp
        from Suc.IH [OF this] re show ?thesis by simp
      qed
    qed
  qed
  show ?case
  proof (cases rule: operation_cases [of maxA a ops env hash bf s dw m])
    case exhausted
    with ne show ?thesis by simp
  next
    case (connErr err dw1)
    show ?thesis by (rule err_case [OF connErr(3)]) simp
  next
    case (panic dw1)
    with ret Retry_Suc_panic [OF panic(4), of fuel] show ?thesis by simp
  next
    case (sendErr dw1 addr e1)
    show ?thesis by (rule err_case [OF sendErr(5)]) simp
  next
    case (ok dw1 addr)
    with ret Retry_Suc_ok [OF ok(5), of fuel] show ?thesis by auto
  qed
qed

lemma backoffs_simps [simp]:
  "backoffs [] = 0" "backoffs (evs @ evs') = backoffs evs + backoffs evs'"
  "backoffs (EvDo a t b i s r # evs) = backoffs evs"
  "backoffs (EvProtoInput # evs) = backoffs evs" "backoffs (EvBackOff # evs) = Suc (backoffs evs)"
  "backoffs (EvClose a # evs) = backoffs evs" "backoffs (EvDial a r # evs) = backoffs evs"
  "backoffs (EvPing a r # evs) = backoffs evs"
  by (simp_all add: backoffs_def)

lemma isConnEv_backoffs: "list_all isConnEv evs \<Longrightarrow> backoffs evs = 0"
proof (induction evs)
  case Nil
  then show ?case by simp
next
  case (Cons e evs)
  then show ?case by (cases e) simp_all
qed

lemma connectDestination_backoffs:
  assumes "connectDestination env dw = (r, dw')"
  shows "backoffs (dw_trace dw') = backoffs (dw_trace dw)"
proof -
  from connectDestination_grows [OF assms] obtain evs where
    "dw_trace dw' = dw_trace dw @ evs" "list_all isConnEv evs"
    by (auto simp: grows_def)
  with isConnEv_backoffs [of evs] show ?thesis by simp
qed

lemma operation_backoffs:
  assumes "operation ops env hash bf s maxA (a, dw, m) = (r, a', dw', m')"
  shows "backoffs (dw_trace dw') = backoffs (dw_trace dw)"
proof (cases rule: operation_cases [of maxA a ops env hash bf s dw m])
  case exhausted
  with assms show ?thesis by simp
next
  case (connErr err dw1)
  with assms connectDestination_backoffs [OF connErr(2)] show ?thesis by simp
next
  case (panic dw1)
  with assms connectDestination_backoffs [OF panic(2)] show ?thesis by auto
next
  case (sendErr dw1 addr e)
  with assms connectDestination_backoffs [OF sendErr(2)] show ?thesis by auto
next
  case (ok dw1 addr)
  with assms connectDestination_backoffs [OF ok(2)] show ?thesis by auto
qed

text \<open>A destination whose sends fail, with a positive limit and a live context: the limit is exceeded.\<close>

lemma Retry_exhausts:
  assumes "permOK env" and "0 < maxA"
      and "sendsFail env (dw_name dw)" and "ctxAlive env (dw_name dw)" and "dw_servers dw \<noteq> []"
      and "a \<le> maxA" and "nat (maxA - a) < fuel"
  shows "\<exists>dw' m'. Retry fuel ops env hash bf s maxA (a, dw, m)
            = Some (Returned (Some (MaxRetriesExceeded maxA (dw_name dw)), maxA + 1, dw', m'))
         \<and> m_retriesExceeded m' = m_retriesExceeded m @ [dw_name dw]
         \<and> m_insertTime m' = m_insertTime m
         \<and> map fst (m_errors m') = map fst (m_errors m) @ replicate (nat (maxA - a)) (dw_name dw)"
  using assms(3-7)
proof (induction fuel arbitrary: a dw m)
  case 0
  then show ?case by simp
next
  case (Suc fuel)
  show ?case
  proof (cases "exhausted maxA a")
    case True
    with Suc.prems(4) have "a = maxA" by (simp add: exhausted_def)
    with Retry_Suc_permanent [OF operation_exhausted [OF True], of fuel ops env hash bf s dw m]
    show ?thesis by simp
  next
    case False
    with assms(2) have lt: "a + 1 \<le> maxA" by (simp add: exhausted_def)
    from operation_fails [OF Suc.prems(1) assms(1) Suc.prems(3) False, of ops hash bf s m]
    obtain err dw1 phase where
      op: "operation ops env hash bf s maxA (a, dw, m) =
             (OpErr err, a + 1, dw1, m\<lparr>m_errors := m_errors m @ [(dw_name dw, phase)]\<rparr>)"
      and nm: "dw_name dw1 = dw_name dw" and sv: "dw_servers dw1 = dw_servers dw"
      by blast
    let ?m1 = "m\<lparr>m_errors := m_errors m @ [(dw_name dw, phase)]\<rparr>"
    let ?dw2 = "emit EvBackOff dw1"
    from Suc.prems(2) nm have nd: "\<not> ctxDone env (dw_name dw1) (dw_trace dw1)"
      "\<not> ctxDone env (dw_name dw1) (dw_trace dw1 @ [EvBackOff])"
      by (simp_all add: ctxAlive_def)
    have unf: "Retry (Suc fuel) ops env hash bf s maxA (a, dw, m)
                 = Retry fuel ops env hash bf s maxA (a + 1, ?dw2, ?m1)"
      unfolding Retry_Suc_err [OF op] using nd by simp
    from lt Suc.prems(5) have fl: "nat (maxA - (a + 1)) < fuel" by simp
    from Suc.IH [of ?dw2 "a + 1" ?m1] Suc.prems(1,2,3) nm sv lt fl
    obtain dw' m' where
      r: "Retry fuel ops env hash bf s maxA (a + 1, ?dw2, ?m1)
            = Some (Returned (Some (MaxRetriesExceeded maxA (dw_name dw)), maxA + 1, dw', m'))"
      and re: "m_retriesExceeded m' = m_retriesExceeded m @ [dw_name dw]"
      and it: "m_insertTime m' = m_insertTime m"
      and er: "map fst (m_errors m') = map fst (m_errors ?m1)
                 @ replicate (nat (maxA - (a + 1))) (dw_name dw)"
      by auto
    from lt have "nat (maxA - a) = Suc (nat (maxA - (a + 1)))" by simp
    with er have "map fst (m_errors m') = map fst (m_errors m) @ replicate (nat (maxA - a)) (dw_name dw)"
      by simp
    with unf r re it show ?thesis by simp
  qed
qed

text \<open>Without a limit, and with a live context, the loop does not return.\<close>

lemma Retry_forever:
  assumes "permOK env" and "maxA \<le> 0"
      and "sendsFail env (dw_name dw)" and "ctxAlive env (dw_name dw)" and "dw_servers dw \<noteq> []"
  shows "Retry fuel ops env hash bf s maxA (a, dw, m) = None"
  using assms(3-5)
proof (induction fuel arbitrary: a dw m)
  case 0
  then show ?case by simp
next
  case (Suc fuel)
  from assms(2) have ne: "\<not> exhausted maxA a" by (simp add: exhausted_def)
  from operation_fails [OF Suc.prems(1) assms(1) Suc.prems(3) ne, of ops hash bf s m]
  obtain err dw1 phase where
    op: "operation ops env hash bf s maxA (a, dw, m) =
           (OpErr err, a + 1, dw1, m\<lparr>m_errors := m_errors m @ [(dw_name dw, phase)]\<rparr>)"
    and nm: "dw_name dw1 = dw_name dw" and sv: "dw_servers dw1 = dw_servers dw"
    by blast
  from Suc.prems(2) nm have nd: "\<not> ctxDone env (dw_name dw1) (dw_trace dw1)"
    "\<not> ctxDone env (dw_name dw1) (dw_trace dw1 @ [EvBackOff])"
    by (simp_all add: ctxAlive_def)
  from Suc.IH [of "emit EvBackOff dw1"] Suc.prems nm sv
  show ?case unfolding Retry_Suc_err [OF op] using nd by simp
qed

text \<open>
  Without a limit, when the context is done from the \<open>k\<close>-th sleep on: \<open>k\<close> attempts,
  then the context's error.
\<close>

lemma Retry_cancelled:
  assumes "permOK env" and "maxA \<le> 0"
      and "sendsFail env (dw_name dw)" and "dw_servers dw \<noteq> []"
      and "\<forall>h. ctxDone env (dw_name dw) h \<longleftrightarrow> k \<le> backoffs h"
      and "backoffs (dw_trace dw) = j" and "j < k" and "k - j \<le> fuel"
  shows "\<exists>dw' m'. Retry fuel ops env hash bf s maxA (a, dw, m)
            = Some (Returned (Some ContextErr, a + int (k - j), dw', m'))
          \<and> m_retriesExceeded m' = m_retriesExceeded m"
  using assms(3-8)
proof (induction fuel arbitrary: a dw m j)
  case 0
  then show ?case by simp
next
  case (Suc fuel)
  from assms(2) have ne: "\<not> exhausted maxA a" by (simp add: exhausted_def)
  from operation_fails [OF Suc.prems(1) assms(1) Suc.prems(2) ne, of ops hash bf s m]
  obtain err dw1 phase where
    op: "operation ops env hash bf s maxA (a, dw, m) =
           (OpErr err, a + 1, dw1, m\<lparr>m_errors := m_errors m @ [(dw_name dw, phase)]\<rparr>)"
    and nm: "dw_name dw1 = dw_name dw" and sv: "dw_servers dw1 = dw_servers dw"
    by blast
  let ?m1 = "m\<lparr>m_errors := m_errors m @ [(dw_name dw, phase)]\<rparr>"
  from operation_backoffs [OF op] Suc.prems(4) have b1: "backoffs (dw_trace dw1) = j" by simp
  with Suc.prems(3,5) nm have nd: "\<not> ctxDone env (dw_name dw1) (dw_trace dw1)" by simp
  show ?case
  proof (cases "Suc j = k")
    case True
    with Suc.prems(3) nm b1 have "ctxDone env (dw_name dw1) (dw_trace dw1 @ [EvBackOff])" by simp
    with nd have "Retry (Suc fuel) ops env hash bf s maxA (a, dw, m)
                    = Some (Returned (Some ContextErr, a + 1, emit EvBackOff dw1, ?m1))"
      unfolding Retry_Suc_err [OF op] by simp
    moreover from True have "int (k - j) = 1" by auto
    ultimately show ?thesis by simp
  next
    case False
    with Suc.prems(5) have lt: "Suc j < k" by simp
    with Suc.prems(3) nm b1 have nd2: "\<not> ctxDone env (dw_name dw1) (dw_trace dw1 @ [EvBackOff])"
      by simp
    have unf: "Retry (Suc fuel) ops env hash bf s maxA (a, dw, m)
                 = Retry fuel ops env hash bf s maxA (a + 1, emit EvBackOff dw1, ?m1)"
      unfolding Retry_Suc_err [OF op] using nd nd2 by simp
    from Suc.prems(6) lt have fl: "k - Suc j \<le> fuel" by simp
    from Suc.IH [of "emit EvBackOff dw1" "Suc j" "a + 1" ?m1] Suc.prems(1,2,3) nm sv b1 lt fl
    obtain dw' m' where
      "Retry fuel ops env hash bf s maxA (a + 1, emit EvBackOff dw1, ?m1)
         = Some (Returned (Some ContextErr, a + 1 + int (k - Suc j), dw', m'))"
      "m_retriesExceeded m' = m_retriesExceeded m"
      by auto
    moreover from lt have "a + 1 + int (k - Suc j) = a + int (k - j)" by simp
    ultimately show ?thesis using unf by simp
  qed
qed

lemma destOK_not_sendsFail: "destOK env n \<Longrightarrow> \<not> sendsFail env n"
  by (simp add: destOK_def sendsFail_def)

lemma flushSingleDestination_ok:
  assumes "permOK env" and "destOK env (dw_name dw)" and "dw_servers dw \<noteq> []"
  shows "\<exists>dw'. flushSingleDestination (Suc fuel) K ops env hash bf dw m =
           Some (Returned (None, 1, dw',
             m\<lparr>m_insertTime := m_insertTime m @ [dw_name dw],
               m_flows := m_flows m @ [(dw_name dw, FlowCount ops bf)]\<rparr>))"
proof -
  let ?maxA = "if dw_maxRetries dw = 0 then - 1 else dw_maxRetries dw"
  have ne: "\<not> exhausted ?maxA 0" by (auto simp: exhausted_def)
  from operation_succeeds [OF assms(2,1,3) ne, of ops hash bf "flushSettings K ops bf dw" m]
  obtain dw1 where "operation ops env hash bf (flushSettings K ops bf dw) ?maxA (0, dw, m) =
       (OpOK, 0 + 1, dw1,
        m\<lparr>m_insertTime := m_insertTime m @ [dw_name dw],
          m_flows := m_flows m @ [(dw_name dw, FlowCount ops bf)]\<rparr>)"
    by blast
  from Retry_Suc_ok [OF this, of fuel] show ?thesis
    by (simp add: flushSingleDestination_def Let_def)
qed

lemma flushSingleDestination_exhausts:
  assumes "permOK env" and "0 < dw_maxRetries dw"
      and "sendsFail env (dw_name dw)" and "ctxAlive env (dw_name dw)" and "dw_servers dw \<noteq> []"
      and "nat (dw_maxRetries dw) < fuel"
  shows "\<exists>dw' m'. flushSingleDestination fuel K ops env hash bf dw m
            = Some (Returned (Some (MaxRetriesExceeded (dw_maxRetries dw) (dw_name dw)),
                              dw_maxRetries dw + 1, dw', m'))
         \<and> m_retriesExceeded m' = m_retriesExceeded m @ [dw_name dw]
         \<and> m_insertTime m' = m_insertTime m
         \<and> map fst (m_errors m') = map fst (m_errors m)
              @ replicate (nat (dw_maxRetries dw)) (dw_name dw)"
proof -
  from assms(2) have le: "(0::int) \<le> dw_maxRetries dw" by simp
  from assms(6) have fl: "nat (dw_maxRetries dw - 0) < fuel" by simp
  from Retry_exhausts [OF assms(1,2,3,4,5) le fl, of ops hash bf "flushSettings K ops bf dw" m]
    assms(2)
  show ?thesis by (simp add: flushSingleDestination_def Let_def)
qed

text \<open>
  The tasks of a flush over destinations that answer and destinations whose sends
  fail and whose limit is one attempt.
\<close>

lemma flushAll_independent:
  assumes perm: "permOK env"
      and each: "\<forall>d \<in> set dws. dw_servers d \<noteq> []
                   \<and> (destOK env (dw_name d)
                      \<or> sendsFail env (dw_name d) \<and> ctxAlive env (dw_name d) \<and> dw_maxRetries d = 1)"
  shows "\<exists>dws' m'. flushAll (Suc (Suc fuel)) K ops env hash bf dws m
            = Some (Returned (map (\<lambda>d. if sendsFail env (dw_name d)
                                         then Some (MaxRetriesExceeded 1 (dw_name d)) else None) dws,
                              dws', m'))
         \<and> m_insertTime m' = m_insertTime m
              @ map dw_name (filter (\<lambda>d. \<not> sendsFail env (dw_name d)) dws)
         \<and> map fst (m_errors m') = map fst (m_errors m)
              @ map dw_name (filter (\<lambda>d. sendsFail env (dw_name d)) dws)
         \<and> m_retriesExceeded m' = m_retriesExceeded m
              @ map dw_name (filter (\<lambda>d. sendsFail env (dw_name d)) dws)"
  using each
proof (induction dws arbitrary: m)
  case Nil
  then show ?case by simp
next
  case (Cons d dws)
  from Cons.prems have srv: "dw_servers d \<noteq> []"
    and kind: "destOK env (dw_name d)
               \<or> sendsFail env (dw_name d) \<and> ctxAlive env (dw_name d) \<and> dw_maxRetries d = 1"
    and rest: "\<forall>d \<in> set dws. dw_servers d \<noteq> []
                   \<and> (destOK env (dw_name d)
                      \<or> sendsFail env (dw_name d) \<and> ctxAlive env (dw_name d) \<and> dw_maxRetries d = 1)"
    by simp_all
  show ?case
  proof (cases "sendsFail env (dw_name d)")
    case True
    with kind destOK_not_sendsFail have bad: "ctxAlive env (dw_name d)" "dw_maxRetries d = 1"
      by auto
    from bad(2) have pos: "0 < dw_maxRetries d" and fl: "nat (dw_maxRetries d) < Suc (Suc fuel)"
      by simp_all
    from flushSingleDestination_exhausts [OF perm pos True bad(1) srv fl, of K ops hash bf m] bad(2)
    obtain d1 m1 where
      one: "flushSingleDestination (Suc (Suc fuel)) K ops env hash bf d m
              = Some (Returned (Some (MaxRetriesExceeded 1 (dw_name d)), 2, d1, m1))"
      and m1: "m_retriesExceeded m1 = m_retriesExceeded m @ [dw_name d]"
        "m_insertTime m1 = m_insertTime m"
        "map fst (m_errors m1) = map fst (m_errors m) @ [dw_name d]"
      by auto
    from Cons.IH [OF rest, of m1] obtain dws' m' where
      "flushAll (Suc (Suc fuel)) K ops env hash bf dws m1
            = Some (Returned (map (\<lambda>d. if sendsFail env (dw_name d)
                                         then Some (MaxRetriesExceeded 1 (dw_name d)) else None) dws,
                              dws', m'))"
      "m_insertTime m' = m_insertTime m1
              @ map dw_name (filter (\<lambda>d. \<not> sendsFail env (dw_name d)) dws)"
      "map fst (m_errors m') = map fst (m_errors m1)
              @ map dw_name (filter (\<lambda>d. sendsFail env (dw_name d)) dws)"
      "m_retriesExceeded m' = m_retriesExceeded m1
              @ map dw_name (filter (\<lambda>d. sendsFail env (dw_name d)) dws)"
      by blast
    with one m1 True show ?thesis by simp
  next
    case False
    with kind have ok: "destOK env (dw_name d)" by simp
    from flushSingleDestination_ok [OF perm ok srv, of "Suc fuel" K ops hash bf m]
    obtain d1 where
      one: "flushSingleDestination (Suc (Suc fuel)) K ops env hash bf d m
              = Some (Returned (None, 1, d1,
                   m\<lparr>m_insertTime := m_insertTime m @ [dw_name d],
                     m_flows := m_flows m @ [(dw_name d, FlowCount ops bf)]\<rparr>))"
      by blast
    let ?m1 = "m\<lparr>m_insertTime := m_insertTime m @ [dw_name d],
                     m_flows := m_flows m @ [(dw_name d, FlowCount ops bf)]\<rparr>"
    from Cons.IH [OF rest, of ?m1] obtain dws' m' where
      "flushAll (Suc (Suc fuel)) K ops env hash bf dws ?m1
            = Some (Returned (map (\<lambda>d. if sendsFail env (dw_name d)
                                         then Some (MaxRetriesExceeded 1 (dw_name d)) else None) dws,
                              dws', m'))"
      "m_insertTime m' = m_insertTime ?m1
              @ map dw_name (filter (\<lambda>d. \<not> sendsFail env (dw_name d)) dws)"
      "map fst (m_errors m') = map fst (m_errors ?m1)
              @ map dw_name (filter (\<lambda>d. sendsFail env (dw_name d)) dws)"
      "m_retriesExceeded m' = m_retriesExceeded ?m1
              @ map dw_name (filter (\<lambda>d. sendsFail env (dw_name d)) dws)"
      by blast
    with one False show ?thesis by simp
  qed
qed

text \<open>
  Claim C5. For a destination with a positive \<^verbatim>\<open>MaxRetries\<close> (the configuration
  rejects negative values): \<^verbatim>\<open>flushSingleDestination\<close> returns within
  \<^verbatim>\<open>MaxRetries + 1\<close> calls of the operation; the attempts it makes are at most
  \<^verbatim>\<open>MaxRetries\<close>; the call beyond the limit makes no attempt, increments the
  retries-exceeded counter once and ends the loop with the permanent error, and no
  other return gives that error or touches the counter. In a flush over
  destinations that answer and destinations whose sends always fail and whose limit is
  1, with a live context, \<^verbatim>\<open>Flush\<close> returns; every destination that answers has
  one insert observed and every failing one has one error and one retries-exceeded
  increment.
\<close>

theorem C5_retry_cap:
  fixes ops :: "('b, 'p) FlowMessageOps" and env :: "'p netenv" and w :: "('b, 'p) realWorker"
  assumes "0 < dw_maxRetries dw"
  shows "(nat (dw_maxRetries dw) < fuel \<longrightarrow>
            flushSingleDestination fuel K ops env hash bf dw m \<noteq> None)
       \<and> (\<forall>e n dw' m'.
            flushSingleDestination fuel K ops env hash bf dw m = Some (Returned (e, n, dw', m')) \<longrightarrow>
              n \<le> dw_maxRetries dw + 1
              \<and> (if n = dw_maxRetries dw + 1
                 then e = Some (MaxRetriesExceeded (dw_maxRetries dw) (dw_name dw))
                    \<and> m_retriesExceeded m' = m_retriesExceeded m @ [dw_name dw]
                    \<and> attemptsMade m' = attemptsMade m + nat (dw_maxRetries dw)
                 else (e = None \<or> e = Some ContextErr)
                    \<and> m_retriesExceeded m' = m_retriesExceeded m
                    \<and> attemptsMade m' = attemptsMade m + nat n))
       \<and> (permOK env \<and> FlowCount ops (w_bf w) \<noteq> 0
           \<and> (\<forall>d \<in> set (w_destWriters w). dw_servers d \<noteq> []
                 \<and> (destOK env (dw_name d)
                    \<or> sendsFail env (dw_name d) \<and> ctxAlive env (dw_name d) \<and> dw_maxRetries d = 1))
           \<longrightarrow>
           (\<exists>w'. Flush (Suc (Suc fuel)) K ops env w = Some (Returned w')
              \<and> m_insertTime (c_metrics (w_c w')) = m_insertTime (c_metrics (w_c w))
                   @ map dw_name (filter (\<lambda>d. \<not> sendsFail env (dw_name d)) (w_destWriters w))
              \<and> map fst (m_errors (c_metrics (w_c w'))) = map fst (m_errors (c_metrics (w_c w)))
                   @ map dw_name (filter (\<lambda>d. sendsFail env (dw_name d)) (w_destWriters w))
              \<and> m_retriesExceeded (c_metrics (w_c w')) = m_retriesExceeded (c_metrics (w_c w))
                   @ map dw_name (filter (\<lambda>d. sendsFail env (dw_name d)) (w_destWriters w))))"
proof (intro conjI allI impI)
  assume "nat (dw_maxRetries dw) < fuel"
  then have "nat (dw_maxRetries dw - 0) < fuel" by simp
  from Retry_total [OF assms _ this, of ops env hash bf "flushSettings K ops bf dw" dw m] assms
  show "flushSingleDestination fuel K ops env hash bf dw m \<noteq> None"
    by (simp add: flushSingleDestination_def Let_def)
next
  fix e n dw' m'
  assume "flushSingleDestination fuel K ops env hash bf dw m = Some (Returned (e, n, dw', m'))"
  with assms have r: "Retry fuel ops env hash bf (flushSettings K ops bf dw) (dw_maxRetries dw)
                        (0, dw, m) = Some (Returned (e, n, dw', m'))"
    by (simp add: flushSingleDestination_def Let_def)
  from assms have le: "(0::int) \<le> dw_maxRetries dw" by simp
  note cap = Retry_cap [OF assms le r]
  from cap show "n \<le> dw_maxRetries dw + 1" by simp
  from cap show "if n = dw_maxRetries dw + 1
                 then e = Some (MaxRetriesExceeded (dw_maxRetries dw) (dw_name dw))
                    \<and> m_retriesExceeded m' = m_retriesExceeded m @ [dw_name dw]
                    \<and> attemptsMade m' = attemptsMade m + nat (dw_maxRetries dw)
                 else (e = None \<or> e = Some ContextErr)
                    \<and> m_retriesExceeded m' = m_retriesExceeded m
                    \<and> attemptsMade m' = attemptsMade m + nat n"
    by (simp split: if_splits)
next
  assume h: "permOK env \<and> FlowCount ops (w_bf w) \<noteq> 0
           \<and> (\<forall>d \<in> set (w_destWriters w). dw_servers d \<noteq> []
                 \<and> (destOK env (dw_name d)
                    \<or> sendsFail env (dw_name d) \<and> ctxAlive env (dw_name d) \<and> dw_maxRetries d = 1))"
  then have perm: "permOK env" and ne: "FlowCount ops (w_bf w) \<noteq> 0"
    and each: "\<forall>d \<in> set (w_destWriters w). dw_servers d \<noteq> []
                 \<and> (destOK env (dw_name d)
                    \<or> sendsFail env (dw_name d) \<and> ctxAlive env (dw_name d) \<and> dw_maxRetries d = 1)"
    by simp_all
  from flushAll_independent [OF perm each, of fuel K ops "c_schemaHash (w_c w)" "w_bf w"
      "c_metrics (w_c w)"]
  obtain dws' m' where
    fa: "flushAll (Suc (Suc fuel)) K ops env (c_schemaHash (w_c w)) (w_bf w) (w_destWriters w)
           (c_metrics (w_c w))
         = Some (Returned (map (\<lambda>d. if sendsFail env (dw_name d)
                                         then Some (MaxRetriesExceeded 1 (dw_name d)) else None)
                              (w_destWriters w), dws', m'))"
    and ms: "m_insertTime m' = m_insertTime (c_metrics (w_c w))
              @ map dw_name (filter (\<lambda>d. \<not> sendsFail env (dw_name d)) (w_destWriters w))"
      "map fst (m_errors m') = map fst (m_errors (c_metrics (w_c w)))
              @ map dw_name (filter (\<lambda>d. sendsFail env (dw_name d)) (w_destWriters w))"
      "m_retriesExceeded m' = m_retriesExceeded (c_metrics (w_c w))
              @ map dw_name (filter (\<lambda>d. sendsFail env (dw_name d)) (w_destWriters w))"
    by blast
  let ?w' = "w\<lparr>w_flushCalls := w_flushCalls w + 1, w_c := (w_c w)\<lparr>c_metrics := m'\<rparr>,
               w_destWriters := dws', w_bf := Clear ops (w_bf w)\<rparr>"
  have "Flush (Suc (Suc fuel)) K ops env w = Some (Returned ?w')"
    unfolding Flush_nonempty [OF ne] fa by simp
  with ms show "\<exists>w'. Flush (Suc (Suc fuel)) K ops env w = Some (Returned w')
              \<and> m_insertTime (c_metrics (w_c w')) = m_insertTime (c_metrics (w_c w))
                   @ map dw_name (filter (\<lambda>d. \<not> sendsFail env (dw_name d)) (w_destWriters w))
              \<and> map fst (m_errors (c_metrics (w_c w'))) = map fst (m_errors (c_metrics (w_c w)))
                   @ map dw_name (filter (\<lambda>d. sendsFail env (dw_name d)) (w_destWriters w))
              \<and> m_retriesExceeded (c_metrics (w_c w')) = m_retriesExceeded (c_metrics (w_c w))
                   @ map dw_name (filter (\<lambda>d. sendsFail env (dw_name d)) (w_destWriters w))"
    by (intro exI [of _ ?w']) simp
qed

lemma envSendsFail_facts:
  "permOK envSendsFail" "destOK envSendsFail ''primary''" "sendsFail envSendsFail ''azure''"
  "ctxAlive envSendsFail ''azure''" "\<not> sendsFail envSendsFail ''primary''"
  by (simp_all add: envSendsFail_def permOK_def destOK_def sendsFail_def ctxAlive_def)

lemma workerIndep_facts:
  "map dw_name (w_destWriters workerIndep) = [''primary'', ''azure'']"
  "map dw_servers (w_destWriters workerIndep) = [[''a''], [''z'']]"
  "map dw_maxRetries (w_destWriters workerIndep) = [0, 1]"
  "FlowCount listOps (w_bf workerIndep) \<noteq> 0"
  "c_metrics (w_c workerIndep) = noMetrics"
  by (simp_all add: workerIndep_def NewWorker_def demoComponent_def demoDest_def
        newDestinationWriter_def listOps_def)

theorem C5_retry_cap_witness:
  "0 < dw_maxRetries writerAzure1
   \<and> flushSingleDestination 2 10 listOps envSendsFail ''x'' [7] writerAzure1 noMetrics \<noteq> None
   \<and> (\<exists>w'. Flush (Suc (Suc 0)) 10 listOps envSendsFail workerIndep = Some (Returned w')
         \<and> m_insertTime (c_metrics (w_c w')) = [''primary'']
         \<and> map fst (m_errors (c_metrics (w_c w'))) = [''azure'']
         \<and> m_retriesExceeded (c_metrics (w_c w')) = [''azure''])"
proof -
  have h: "0 < dw_maxRetries writerAzure1"
    by (simp add: writerAzure1_def newDestinationWriter_def demoDest_def)
  have fl: "nat (dw_maxRetries writerAzure1) < 2"
    by (simp add: writerAzure1_def newDestinationWriter_def demoDest_def)
  obtain d1 d2 where ds: "w_destWriters workerIndep = [d1, d2]"
    by (simp add: workerIndep_def NewWorker_def demoComponent_def)
  with workerIndep_facts(1,2,3) have d:
    "dw_name d1 = ''primary''" "dw_name d2 = ''azure''" "dw_servers d1 \<noteq> []" "dw_servers d2 \<noteq> []"
    "dw_maxRetries d2 = 1"
    by simp_all
  have each: "\<forall>d \<in> set (w_destWriters workerIndep). dw_servers d \<noteq> []
       \<and> (destOK envSendsFail (dw_name d)
          \<or> sendsFail envSendsFail (dw_name d) \<and> ctxAlive envSendsFail (dw_name d)
            \<and> dw_maxRetries d = 1)"
    using ds d by (simp add: envSendsFail_facts)
  note inst = C5_retry_cap [OF h, where fuel = 2 and K = 10 and ops = listOps and env = envSendsFail
      and hash = "''x''" and bf = "[7]" and m = noMetrics and w = workerIndep]
  from inst fl have a: "flushSingleDestination 2 10 listOps envSendsFail ''x'' [7] writerAzure1 noMetrics \<noteq> None"
    by blast
  have pre: "permOK (envSendsFail :: nat list netenv) \<and> FlowCount listOps (w_bf workerIndep) \<noteq> 0
       \<and> (\<forall>d \<in> set (w_destWriters workerIndep). dw_servers d \<noteq> []
       \<and> (destOK envSendsFail (dw_name d)
          \<or> sendsFail envSendsFail (dw_name d) \<and> ctxAlive envSendsFail (dw_name d)
            \<and> dw_maxRetries d = 1))"
    using each workerIndep_facts(4) by (simp add: envSendsFail_facts)
  note inst0 = C5_retry_cap [OF h, where fuel = 0 and K = 10 and ops = listOps and env = envSendsFail
      and hash = "''x''" and bf = "[7]" and m = noMetrics and w = workerIndep]
  note run = inst0 [THEN conjunct2, THEN conjunct2, THEN mp, OF pre]
  from run have b: "\<exists>w'. Flush (Suc (Suc 0)) 10 listOps envSendsFail workerIndep = Some (Returned w')
         \<and> m_insertTime (c_metrics (w_c w')) = [''primary'']
         \<and> map fst (m_errors (c_metrics (w_c w'))) = [''azure'']
         \<and> m_retriesExceeded (c_metrics (w_c w')) = [''azure'']"
    using ds d workerIndep_facts(5) by (simp add: noMetrics_def envSendsFail_facts)
  from h a b show ?thesis by blast
qed

section \<open>The first call on a new worker\<close>

lemma operation_succeeds_sent:
  assumes ok: "destOK env (dw_name dw)" and perm: "permOK env" and srv: "dw_servers dw \<noteq> []"
      and ne: "\<not> exhausted maxA a"
  obtains dw1 addr where
    "operation ops env hash bf s maxA (a, dw, m) =
       (OpOK, a + 1, dw1,
        m\<lparr>m_insertTime := m_insertTime m @ [dw_name dw],
          m_flows := m_flows m @ [(dw_name dw, FlowCount ops bf)]\<rparr>)"
    "dw_name dw1 = dw_name dw"
    "dw_trace dw1 \<noteq> []"
    "last (dw_trace dw1) = EvDo addr (''flows_'' @ hash @ ''_raw'') (ClickHouseProtoInput ops bf)
                  (ClickHouseProtoInput ops bf) s None"
proof (cases rule: operation_cases [of maxA a ops env hash bf s dw m])
  case exhausted
  with ne show ?thesis by simp
next
  case (connErr err dw1)
  with connectDestination_ok [OF ok perm srv] show ?thesis by simp
next
  case (panic dw1)
  from connectDestination_None [OF perm panic(2)] panic(3) srv show ?thesis by simp
next
  case (sendErr dw1 addr e)
  note g = connectDestination_grows [OF sendErr(2)]
  from sendErr(4) ok grows_name [OF g] show ?thesis by (simp add: destOK_def)
next
  case (ok dw1 addr)
  note g = connectDestination_grows [OF ok(2)]
  let ?d = "emit (EvDo addr (''flows_'' @ hash @ ''_raw'') (ClickHouseProtoInput ops bf)
                  (ClickHouseProtoInput ops bf) s None)
            (emit EvProtoInput (emit EvProtoInput dw1))"
  from ok(5) grows_name [OF g] show ?thesis
    by (intro that [of ?d addr]) (simp_all add: emit_def)
qed

lemma flushSingleDestination_sent:
  assumes "permOK env" and "destOK env (dw_name dw)" and "dw_servers dw \<noteq> []"
  shows "\<exists>dw' addr. flushSingleDestination (Suc fuel) K ops env hash bf dw m =
           Some (Returned (None, 1, dw',
             m\<lparr>m_insertTime := m_insertTime m @ [dw_name dw],
               m_flows := m_flows m @ [(dw_name dw, FlowCount ops bf)]\<rparr>))
         \<and> dw_trace dw' \<noteq> []
         \<and> last (dw_trace dw') = EvDo addr (''flows_'' @ hash @ ''_raw'') (ClickHouseProtoInput ops bf)
                  (ClickHouseProtoInput ops bf) (flushSettings K ops bf dw) None"
proof -
  let ?maxA = "if dw_maxRetries dw = 0 then - 1 else dw_maxRetries dw"
  have ne: "\<not> exhausted ?maxA 0" by (auto simp: exhausted_def)
  from operation_succeeds_sent [OF assms(2,1,3) ne, of ops hash bf "flushSettings K ops bf dw" m]
  obtain dw1 addr where op: "operation ops env hash bf (flushSettings K ops bf dw) ?maxA (0, dw, m) =
       (OpOK, 0 + 1, dw1,
        m\<lparr>m_insertTime := m_insertTime m @ [dw_name dw],
          m_flows := m_flows m @ [(dw_name dw, FlowCount ops bf)]\<rparr>)"
    and tr: "dw_trace dw1 \<noteq> []"
      "last (dw_trace dw1) = EvDo addr (''flows_'' @ hash @ ''_raw'') (ClickHouseProtoInput ops bf)
                  (ClickHouseProtoInput ops bf) (flushSettings K ops bf dw) None"
    by blast
  from Retry_Suc_ok [OF op, of fuel] tr show ?thesis
    by (simp add: flushSingleDestination_def Let_def)
qed

text \<open>The tasks of a flush over destinations that all answer: one send each.\<close>

lemma flushAll_sent:
  assumes perm: "permOK env"
      and each: "\<forall>d \<in> set dws. dw_servers d \<noteq> [] \<and> destOK env (dw_name d)"
  shows "\<exists>dws' m'. flushAll (Suc fuel) K ops env hash bf dws m
            = Some (Returned (map (\<lambda>d. None) dws, dws', m'))
         \<and> m_insertTime m' = m_insertTime m @ map dw_name dws
         \<and> m_flows m' = m_flows m @ map (\<lambda>d. (dw_name d, FlowCount ops bf)) dws
         \<and> length dws' = length dws
         \<and> (\<forall>d' \<in> set dws'. \<exists>addr s.
               dw_trace d' \<noteq> [] \<and>
               last (dw_trace d') = EvDo addr (''flows_'' @ hash @ ''_raw'')
                  (ClickHouseProtoInput ops bf) (ClickHouseProtoInput ops bf) s None)"
  using each
proof (induction dws arbitrary: m)
  case Nil
  then show ?case by simp
next
  case (Cons d dws)
  from Cons.prems have srv: "dw_servers d \<noteq> []" and ok: "destOK env (dw_name d)"
    and rest: "\<forall>d \<in> set dws. dw_servers d \<noteq> [] \<and> destOK env (dw_name d)"
    by simp_all
  let ?m1 = "m\<lparr>m_insertTime := m_insertTime m @ [dw_name d],
                     m_flows := m_flows m @ [(dw_name d, FlowCount ops bf)]\<rparr>"
  from flushSingleDestination_sent [OF perm ok srv, of fuel K ops hash bf m]
  obtain d1 addr where
    one: "flushSingleDestination (Suc fuel) K ops env hash bf d m = Some (Returned (None, 1, d1, ?m1))"
    and tr: "dw_trace d1 \<noteq> []"
      "last (dw_trace d1) = EvDo addr (''flows_'' @ hash @ ''_raw'') (ClickHouseProtoInput ops bf)
                  (ClickHouseProtoInput ops bf) (flushSettings K ops bf d) None"
    by blast
  from Cons.IH [OF rest, of ?m1] obtain dws' m' where
    fa: "flushAll (Suc fuel) K ops env hash bf dws ?m1 = Some (Returned (map (\<lambda>d. None) dws, dws', m'))"
    and ms: "m_insertTime m' = m_insertTime ?m1 @ map dw_name dws"
      "m_flows m' = m_flows ?m1 @ map (\<lambda>d. (dw_name d, FlowCount ops bf)) dws"
      "length dws' = length dws"
    and trs: "\<forall>d' \<in> set dws'. \<exists>addr s.
               dw_trace d' \<noteq> [] \<and>
               last (dw_trace d') = EvDo addr (''flows_'' @ hash @ ''_raw'')
                  (ClickHouseProtoInput ops bf) (ClickHouseProtoInput ops bf) s None"
    by blast
  have "flushAll (Suc fuel) K ops env hash bf (d # dws) m
          = Some (Returned (map (\<lambda>d. None) (d # dws), d1 # dws', m'))"
    using one fa by simp
  moreover have "\<forall>d' \<in> set (d1 # dws'). \<exists>addr s.
               dw_trace d' \<noteq> [] \<and>
               last (dw_trace d') = EvDo addr (''flows_'' @ hash @ ''_raw'')
                  (ClickHouseProtoInput ops bf) (ClickHouseProtoInput ops bf) s None"
    using tr trs by auto
  ultimately show ?case using ms by (intro exI [of _ "d1 # dws'"] exI [of _ m']) simp
qed

text \<open>
  Claim C9. A worker made by \<^verbatim>\<open>NewWorker\<close> has the zero time as its last-flush time.
  At any time after the Unix epoch the wait measured from it is the maximum duration, so
  the wait-time condition holds whatever \<^verbatim>\<open>MaximumWaitTime\<close> is, and the first call of
  \<^verbatim>\<open>FinalizeAndSend\<close> flushes. With an empty batch the flush returns at once: nothing is
  sent and the last-flush time is set. With records in the batch the call is the run of
  the tasks of the destination writers on the finalized batch: it returns when they have
  all returned, with the writers as the tasks left them, the batch cleared and the
  last-flush time set. No wait time is observed. When every destination has a server
  and answers, the call returns, every destination has one insert observed with the
  size of the batch, and the last event of every writer is a successful send of the
  payload of the batch.
\<close>

theorem C9_first_call_flushes:
  fixes ops :: "('b, 'p) FlowMessageOps" and env :: "'p netenv"
  assumes "unixEpoch \<le> now"
  shows "time_IsZero (w_last (NewWorker c bf :: ('b, 'p) realWorker))
       \<and> sint (MaximumWaitTime (primaryConfig c))
            \<le> sint (time_Sub now (w_last (NewWorker c bf :: ('b, 'p) realWorker)))
       \<and> (FlowCount ops (Finalize ops bf) = 0 \<longrightarrow>
            FinalizeAndSend fuel K ops env now now2 (NewWorker c bf) =
              Some (Returned
                (if MaximumBatchSize (primaryConfig c) = 0
                 then (WorkerStatusOverloaded,
                       \<lparr>w_c = c\<lparr>c_metrics := (c_metrics c)
                                 \<lparr>m_overloaded := m_overloaded (c_metrics c) + 1\<rparr>\<rparr>,
                        w_bf = Finalize ops bf, w_last = now2,
                        w_destWriters = map newDestinationWriter (c_destinations c),
                        w_flushCalls = 1\<rparr>)
                 else (WorkerStatusUnderloaded,
                       \<lparr>w_c = c\<lparr>c_metrics := (c_metrics c)
                                 \<lparr>m_underloaded := m_underloaded (c_metrics c) + 1\<rparr>\<rparr>,
                        w_bf = Finalize ops bf, w_last = now2,
                        w_destWriters = map newDestinationWriter (c_destinations c),
                        w_flushCalls = 1\<rparr>))))
       \<and> (FlowCount ops (Finalize ops bf) \<noteq> 0 \<longrightarrow>
            FinalizeAndSend fuel K ops env now now2 (NewWorker c bf) =
              (case flushAll fuel K ops env (c_schemaHash c) (Finalize ops bf)
                      (map newDestinationWriter (c_destinations c)) (c_metrics c) of
                 None \<Rightarrow> None
               | Some Panicked \<Rightarrow> Some Panicked
               | Some (Returned (errs, dws, m)) \<Rightarrow>
                   Some (Returned
                     (if MaximumBatchSize (primaryConfig c) \<le> FlowCount ops (Finalize ops bf)
                      then (WorkerStatusOverloaded,
                            \<lparr>w_c = c\<lparr>c_metrics := m\<lparr>m_overloaded := m_overloaded m + 1\<rparr>\<rparr>,
                             w_bf = Clear ops (Finalize ops bf), w_last = now2,
                             w_destWriters = dws, w_flushCalls = 1\<rparr>)
                      else if FlowCount ops (Finalize ops bf)
                                \<le> MaximumBatchSize (primaryConfig c) div K
                      then (WorkerStatusUnderloaded,
                            \<lparr>w_c = c\<lparr>c_metrics := m\<lparr>m_underloaded := m_underloaded m + 1\<rparr>\<rparr>,
                             w_bf = Clear ops (Finalize ops bf), w_last = now2,
                             w_destWriters = dws, w_flushCalls = 1\<rparr>)
                      else (WorkerStatusOK,
                            \<lparr>w_c = c\<lparr>c_metrics := m\<rparr>,
                             w_bf = Clear ops (Finalize ops bf), w_last = now2,
                             w_destWriters = dws, w_flushCalls = 1\<rparr>)))))
       \<and> (\<forall>s w'. FinalizeAndSend fuel K ops env now now2 (NewWorker c bf) = Some (Returned (s, w')) \<longrightarrow>
            w_last w' = now2
            \<and> m_waitTime (c_metrics (w_c w')) = m_waitTime (c_metrics c))
       \<and> (permOK env \<and> FlowCount ops (Finalize ops bf) \<noteq> 0
           \<and> (\<forall>d \<in> set (c_destinations c). db_servers (dc_db d) \<noteq> [] \<and> destOK env (dc_name d)) \<longrightarrow>
           (\<exists>s w'. FinalizeAndSend (Suc fuel) K ops env now now2 (NewWorker c bf)
                      = Some (Returned (s, w'))
              \<and> w_bf w' = Clear ops (Finalize ops bf)
              \<and> m_insertTime (c_metrics (w_c w'))
                  = m_insertTime (c_metrics c) @ map dc_name (c_destinations c)
              \<and> m_flows (c_metrics (w_c w'))
                  = m_flows (c_metrics c)
                    @ map (\<lambda>d. (dc_name d, FlowCount ops (Finalize ops bf))) (c_destinations c)
              \<and> length (w_destWriters w') = length (c_destinations c)
              \<and> (\<forall>d' \<in> set (w_destWriters w'). \<exists>addr st.
                    dw_trace d' \<noteq> [] \<and>
                    last (dw_trace d') = EvDo addr (''flows_'' @ c_schemaHash c @ ''_raw'')
                      (ClickHouseProtoInput ops (Finalize ops bf))
                      (ClickHouseProtoInput ops (Finalize ops bf)) st None)))"
proof -
  let ?v = "NewWorker c bf :: ('b, 'p) realWorker"
  let ?w = "?v\<lparr>w_bf := Finalize ops bf\<rparr>"
  let ?b = "FlowCount ops (Finalize ops bf)"
  let ?M = "MaximumBatchSize (primaryConfig c)"
  have zero: "time_IsZero (w_last ?v)" by (simp add: time_IsZero_def)
  have wait: "sint (MaximumWaitTime (primaryConfig c)) \<le> sint (time_Sub now (w_last ?v))"
    using time_Sub_zero [OF assms] sint_le_maxDuration [of "MaximumWaitTime (primaryConfig c)"]
    by simp
  then have trig: "flushTriggered (FlowCount ops (Finalize ops (w_bf ?v)))
              (time_Sub now (w_last ?v)) (primaryConfig (w_c ?v))"
    by (simp add: flushTriggered_def)
  have rec: "recordWaitTime now ?w = ?w"
    by (simp add: recordWaitTime_def time_IsZero_def)
  have fas: "FinalizeAndSend fuel K ops env now now2 ?v =
     (case Flush fuel K ops env ?w of
        None \<Rightarrow> None
      | Some Panicked \<Rightarrow> Some Panicked
      | Some (Returned w2) \<Rightarrow>
          (if ?M \<le> ?b
           then Some (Returned (WorkerStatusOverloaded, incOverloaded (w2\<lparr>w_last := now2\<rparr>)))
           else if ?b \<le> ?M div K
           then Some (Returned (WorkerStatusUnderloaded, incUnderloaded (w2\<lparr>w_last := now2\<rparr>)))
           else Some (Returned (WorkerStatusOK, w2\<lparr>w_last := now2\<rparr>))))" for fuel
    unfolding FinalizeAndSend_flush [OF trig, of fuel K env now2] rec NewWorker_sel
    by (rule refl)
  have empty: "FinalizeAndSend fuel K ops env now now2 ?v =
              Some (Returned
                (if ?M = 0
                 then (WorkerStatusOverloaded,
                       \<lparr>w_c = c\<lparr>c_metrics := (c_metrics c)
                                 \<lparr>m_overloaded := m_overloaded (c_metrics c) + 1\<rparr>\<rparr>,
                        w_bf = Finalize ops bf, w_last = now2,
                        w_destWriters = map newDestinationWriter (c_destinations c),
                        w_flushCalls = 1\<rparr>)
                 else (WorkerStatusUnderloaded,
                       \<lparr>w_c = c\<lparr>c_metrics := (c_metrics c)
                                 \<lparr>m_underloaded := m_underloaded (c_metrics c) + 1\<rparr>\<rparr>,
                        w_bf = Finalize ops bf, w_last = now2,
                        w_destWriters = map newDestinationWriter (c_destinations c),
                        w_flushCalls = 1\<rparr>)))"
    if e: "?b = 0"
  proof -
    have f: "Flush fuel K ops env ?w = Some (Returned (?w\<lparr>w_flushCalls := 1\<rparr>))"
      using e by (simp add: Flush_def Let_def)
    show ?thesis unfolding fas f using e
      by (simp add: incOverloaded_def incUnderloaded_def NewWorker_def)
  qed
  have nonempty: "FinalizeAndSend fuel K ops env now now2 ?v =
              (case flushAll fuel K ops env (c_schemaHash c) (Finalize ops bf)
                      (map newDestinationWriter (c_destinations c)) (c_metrics c) of
                 None \<Rightarrow> None
               | Some Panicked \<Rightarrow> Some Panicked
               | Some (Returned (errs, dws, m)) \<Rightarrow>
                   Some (Returned
                     (if ?M \<le> ?b
                      then (WorkerStatusOverloaded,
                            \<lparr>w_c = c\<lparr>c_metrics := m\<lparr>m_overloaded := m_overloaded m + 1\<rparr>\<rparr>,
                             w_bf = Clear ops (Finalize ops bf), w_last = now2,
                             w_destWriters = dws, w_flushCalls = 1\<rparr>)
                      else if ?b \<le> ?M div K
                      then (WorkerStatusUnderloaded,
                            \<lparr>w_c = c\<lparr>c_metrics := m\<lparr>m_underloaded := m_underloaded m + 1\<rparr>\<rparr>,
                             w_bf = Clear ops (Finalize ops bf), w_last = now2,
                             w_destWriters = dws, w_flushCalls = 1\<rparr>)
                      else (WorkerStatusOK,
                            \<lparr>w_c = c\<lparr>c_metrics := m\<rparr>,
                             w_bf = Clear ops (Finalize ops bf), w_last = now2,
                             w_destWriters = dws, w_flushCalls = 1\<rparr>))))"
    if ne: "?b \<noteq> 0" for fuel
    unfolding fas using ne
    by (simp add: Flush_def Let_def incOverloaded_def incUnderloaded_def NewWorker_def
          split: option.splits outcome.splits)
  have ret: "w_last w' = now2 \<and> m_waitTime (c_metrics (w_c w')) = m_waitTime (c_metrics c)"
    if r: "FinalizeAndSend fuel K ops env now now2 ?v = Some (Returned (s, w'))" for s w'
  proof -
    from r obtain w2 where
      f: "Flush fuel K ops env ?w = Some (Returned w2)"
      and w': "w' = incOverloaded (w2\<lparr>w_last := now2\<rparr>) \<or> w' = incUnderloaded (w2\<lparr>w_last := now2\<rparr>)
             \<or> w' = w2\<lparr>w_last := now2\<rparr>"
      unfolding fas by (auto split: option.splits outcome.splits if_splits)
    from Flush_waitTime [OF f] have "m_waitTime (c_metrics (w_c w2)) = m_waitTime (c_metrics c)"
      by simp
    moreover from w' have "m_waitTime (c_metrics (w_c w')) = m_waitTime (c_metrics (w_c w2))"
      by (elim disjE) simp_all
    moreover from w' have "w_last w' = now2" by (elim disjE) simp_all
    ultimately show ?thesis by simp
  qed
  have ret': "\<forall>s w'. FinalizeAndSend fuel K ops env now now2 ?v = Some (Returned (s, w')) \<longrightarrow>
            w_last w' = now2 \<and> m_waitTime (c_metrics (w_c w')) = m_waitTime (c_metrics c)"
    by (intro allI impI) (rule ret)
  have scen: "\<exists>s w'. FinalizeAndSend (Suc fuel) K ops env now now2 ?v = Some (Returned (s, w'))
              \<and> w_bf w' = Clear ops (Finalize ops bf)
              \<and> m_insertTime (c_metrics (w_c w'))
                  = m_insertTime (c_metrics c) @ map dc_name (c_destinations c)
              \<and> m_flows (c_metrics (w_c w'))
                  = m_flows (c_metrics c)
                    @ map (\<lambda>d. (dc_name d, FlowCount ops (Finalize ops bf))) (c_destinations c)
              \<and> length (w_destWriters w') = length (c_destinations c)
              \<and> (\<forall>d' \<in> set (w_destWriters w'). \<exists>addr st.
                    dw_trace d' \<noteq> [] \<and>
                    last (dw_trace d') = EvDo addr (''flows_'' @ c_schemaHash c @ ''_raw'')
                      (ClickHouseProtoInput ops (Finalize ops bf))
                      (ClickHouseProtoInput ops (Finalize ops bf)) st None)"
    if h: "permOK env \<and> ?b \<noteq> 0
           \<and> (\<forall>d \<in> set (c_destinations c). db_servers (dc_db d) \<noteq> [] \<and> destOK env (dc_name d))"
  proof -
    from h have perm: "permOK env" and ne: "?b \<noteq> 0" by simp_all
    from h have each: "\<forall>d \<in> set (map newDestinationWriter (c_destinations c) :: 'p destinationWriter list).
        dw_servers d \<noteq> [] \<and> destOK env (dw_name d)"
      by (auto simp: newDestinationWriter_def)
    from flushAll_sent [OF perm each, of fuel K ops "c_schemaHash c" "Finalize ops bf" "c_metrics c"]
    obtain dws' m' where
      fa: "flushAll (Suc fuel) K ops env (c_schemaHash c) (Finalize ops bf)
             (map newDestinationWriter (c_destinations c)) (c_metrics c)
           = Some (Returned (map (\<lambda>d. None) (map newDestinationWriter (c_destinations c)
                     :: 'p destinationWriter list), dws', m'))"
      and ms: "m_insertTime m' = m_insertTime (c_metrics c)
                 @ map dw_name (map newDestinationWriter (c_destinations c) :: 'p destinationWriter list)"
        "m_flows m' = m_flows (c_metrics c)
                 @ map (\<lambda>d. (dw_name d, ?b))
                     (map newDestinationWriter (c_destinations c) :: 'p destinationWriter list)"
        "length dws' = length (map newDestinationWriter (c_destinations c) :: 'p destinationWriter list)"
      and trs: "\<forall>d' \<in> set dws'. \<exists>addr s.
               dw_trace d' \<noteq> [] \<and>
               last (dw_trace d') = EvDo addr (''flows_'' @ c_schemaHash c @ ''_raw'')
                  (ClickHouseProtoInput ops (Finalize ops bf))
                  (ClickHouseProtoInput ops (Finalize ops bf)) s None"
      by blast
    have nm: "map dw_name (map newDestinationWriter (c_destinations c) :: 'p destinationWriter list)
                = map dc_name (c_destinations c)"
      "map (\<lambda>d. (dw_name d, ?b)) (map newDestinationWriter (c_destinations c) :: 'p destinationWriter list)
                = map (\<lambda>d. (dc_name d, ?b)) (c_destinations c)"
      by (simp_all add: newDestinationWriter_def comp_def)
    show ?thesis
      unfolding nonempty [OF ne] fa using ms trs nm by (auto split: if_splits)
  qed
  from zero wait empty nonempty ret' scen show ?thesis by (intro conjI impI) blast+
qed


theorem C9_first_call_flushes_witness:
  "unixEpoch \<le> unixEpoch + 1
   \<and> FinalizeAndSend 1 10 listOps envOK (unixEpoch + 1) (unixEpoch + 2)
        (NewWorker (demoComponent [demoDest ''primary'' [''a''] 0 100 5000000000]) [7]) =
      Some (Returned (WorkerStatusUnderloaded,
        \<lparr>w_c = (demoComponent [demoDest ''primary'' [''a''] 0 100 5000000000])
                 \<lparr>c_metrics := noMetrics\<lparr>m_flows := [(''primary'', 1)],
                     m_insertTime := [''primary''], m_underloaded := 1\<rparr>\<rparr>,
         w_bf = [], w_last = unixEpoch + 2,
         w_destWriters = [demoSent (demoDest ''primary'' [''a''] 0 100 5000000000) ''a'' [7]],
         w_flushCalls = 1\<rparr>))"
proof -
  have h: "unixEpoch \<le> unixEpoch + 1" by simp
  have ne: "FlowCount listOps (Finalize listOps [7]) \<noteq> 0" by (simp add: listOps_def)
  note inst = C9_first_call_flushes [OF h, where ops = listOps and env = envOK and fuel = 1 and K = 10
      and ?now2.0 = "unixEpoch + 2"
      and c = "demoComponent [demoDest ''primary'' [''a''] 0 100 5000000000]" and bf = "[7::nat]"]
  note run = inst [THEN conjunct2, THEN conjunct2, THEN conjunct2, THEN conjunct1, THEN mp, OF ne]
  have "FinalizeAndSend 1 10 listOps envOK (unixEpoch + 1) (unixEpoch + 2)
        (NewWorker (demoComponent [demoDest ''primary'' [''a''] 0 100 5000000000]) [7]) =
      Some (Returned (WorkerStatusUnderloaded,
        \<lparr>w_c = (demoComponent [demoDest ''primary'' [''a''] 0 100 5000000000])
                 \<lparr>c_metrics := noMetrics\<lparr>m_flows := [(''primary'', 1)],
                     m_insertTime := [''primary''], m_underloaded := 1\<rparr>\<rparr>,
         w_bf = [], w_last = unixEpoch + 2,
         w_destWriters = [demoSent (demoDest ''primary'' [''a''] 0 100 5000000000) ''a'' [7]],
         w_flushCalls = 1\<rparr>))"
    unfolding run
    by (simp add: demoSent_def demoComponent_def demoDest_def primaryConfig_def listOps_def
          envOK_def noMetrics_def newDestinationWriter_def flushSingleDestination_def
          flushSettings_def operation_def connectDestination_def emit_def Let_def word_le_def)
  with h show ?thesis by blast
qed

section \<open>The insert mode\<close>

lemma decimalValue_snoc: "decimalValue (s @ [ch]) = 10 * decimalValue s + (of_char ch - 48)"
  by (simp add: decimalValue_def)

lemma digit10_val: "n < 10 \<Longrightarrow> of_char (digit10 n) - 48 = n"
  by (simp add: digit10_def)

lemma FormatUint10_value: "decimalValue (FormatUint10 n) = n"
proof (induction n rule: FormatUint10.induct)
  case (1 n)
  show ?case
  proof (cases "n < 10")
    case True
    then have "FormatUint10 n = [digit10 n]" by (subst FormatUint10.simps) simp
    with True show ?thesis using decimalValue_snoc [of "[]" "digit10 n"]
      by (simp add: digit10_val decimalValue_def)
  next
    case False
    then have f: "FormatUint10 n = FormatUint10 (n div 10) @ [digit10 (n mod 10)]"
      by (subst FormatUint10.simps) simp
    from 1 False have "decimalValue (FormatUint10 (n div 10)) = n div 10" by simp
    then show ?thesis unfolding f decimalValue_snoc by (simp add: digit10_val)
  qed
qed

lemma Milliseconds_nonneg:
  assumes "0 \<le> sint d"
  shows "unat (Milliseconds d) = nat (sint d div 1000000)"
proof -
  have lt: "sint d < 9223372036854775808" using sint_lt [of d] by simp
  from assms have s: "sgn (sint d) * (\<bar>sint d\<bar> div 1000000) = sint d div 1000000"
    by (cases "sint d = 0") (simp_all add: sgn_if)
  have "0 \<le> sint d div 1000000" using assms by simp
  moreover have "sint d div 1000000 < 2 ^ 64"
  proof -
    have "sint d div 1000000 \<le> sint d div 1" using assms by (intro zdiv_mono2) simp_all
    then have "sint d div 1000000 \<le> sint d" by simp
    with lt show ?thesis by simp
  qed
  ultimately have "unat (word_of_int (sint d div 1000000) :: 64 word) = nat (sint d div 1000000)"
    by (simp add: unat_eq_nat_uint uint_word_of_int take_bit_int_eq_self)
  with s show ?thesis by (simp add: Milliseconds_def)
qed

text \<open>A successful attempt ends with its send.\<close>

lemma operation_ok_last:
  assumes "operation ops env hash bf s maxA (a, dw, m) = (OpOK, a', dw', m')"
  shows "\<exists>addr pre. dw_trace dw' = pre @ [EvDo addr (''flows_'' @ hash @ ''_raw'')
              (ClickHouseProtoInput ops bf) (ClickHouseProtoInput ops bf) s None]
           \<and> length (dw_trace dw) \<le> length pre"
proof (cases rule: operation_cases [of maxA a ops env hash bf s dw m])
  case exhausted
  with assms show ?thesis by simp
next
  case (connErr err dw1)
  with assms show ?thesis by simp
next
  case (panic dw1)
  with assms show ?thesis by simp
next
  case (sendErr dw1 addr e)
  with assms show ?thesis by simp
next
  case (ok dw1 addr)
  from grows_length [OF connectDestination_grows [OF ok(2)]]
  have "length (dw_trace dw) \<le> length (dw_trace dw1 @ [EvProtoInput, EvProtoInput])" by simp
  moreover from ok(5) assms
  have "dw_trace dw' = (dw_trace dw1 @ [EvProtoInput, EvProtoInput])
           @ [EvDo addr (''flows_'' @ hash @ ''_raw'')
              (ClickHouseProtoInput ops bf) (ClickHouseProtoInput ops bf) s None]"
    by auto
  ultimately show ?thesis by blast
qed

lemma Retry_ok_last:
  assumes "Retry fuel ops env hash bf s maxA (a, dw, m) = Some (Returned (None, a', dw', m'))"
  shows "\<exists>addr pre. dw_trace dw' = pre @ [EvDo addr (''flows_'' @ hash @ ''_raw'')
              (ClickHouseProtoInput ops bf) (ClickHouseProtoInput ops bf) s None]
           \<and> length (dw_trace dw) \<le> length pre"
  using assms
proof (induction fuel arbitrary: a dw m)
  case 0
  then show ?case by simp
next
  case (Suc fuel)
  obtain r a1 dw1 m1 where op: "operation ops env hash bf s maxA (a, dw, m) = (r, a1, dw1, m1)"
    by (metis prod_cases4)
  note len = grows_length [OF operation_grows [OF op]]
  show ?case
  proof (cases r)
    case OpOK
    with Suc.prems op have "a1 = a'" "dw1 = dw'" "m1 = m'" by simp_all
    with op OpOK operation_ok_last [of ops env hash bf s maxA a dw m a' dw' m'] show ?thesis by simp
  next
    case (OpErr err)
    note unf = Retry_Suc_err [OF op [unfolded OpErr], of fuel]
    from Suc.prems unf
    have r: "Retry fuel ops env hash bf s maxA (a1, emit EvBackOff dw1, m1)
                = Some (Returned (None, a', dw', m'))"
      by (simp split: if_splits)
    from Suc.IH [OF r] obtain addr pre where
      "dw_trace dw' = pre @ [EvDo addr (''flows_'' @ hash @ ''_raw'')
              (ClickHouseProtoInput ops bf) (ClickHouseProtoInput ops bf) s None]"
      "length (dw_trace (emit EvBackOff dw1)) \<le> length pre"
      by blast
    with len show ?thesis by (intro exI [of _ addr] exI [of _ pre]) simp
  next
    case (OpPermanent err)
    with Suc.prems op show ?thesis by simp
  next
    case OpPanic
    with Suc.prems op show ?thesis by simp
  qed
qed

lemma demo_single_sync:
  "flushSingleDestination 1 10 listOps envOK ''x'' [0, 1, 2, 3, 4, 5, 6, 7, 8, 9, 10]
     (newDestinationWriter (demoDest ''primary'' [''a''] 0 100 5000000000)) noMetrics =
   Some (Returned (None, 1,
     (newDestinationWriter (demoDest ''primary'' [''a''] 0 100 5000000000))
       \<lparr>dw_conn := Some ''a'', dw_options_Address := ''a'',
        dw_trace := [EvDial ''a'' None, EvPing ''a'' None, EvProtoInput, EvProtoInput,
          EvDo ''a'' ''flows_x_raw'' [0, 1, 2, 3, 4, 5, 6, 7, 8, 9, 10]
            [0, 1, 2, 3, 4, 5, 6, 7, 8, 9, 10] [] None]\<rparr>,
     noMetrics\<lparr>m_flows := [(''primary'', 11)], m_insertTime := [''primary'']\<rparr>))"
  by (simp add: demo_defs word_le_def)

text \<open>
  Claim C8. In a call of \<^verbatim>\<open>flushSingleDestination\<close> that returns, every send of the
  writer carries the writer's async settings if the batch size is at most the
  writer's own \<^verbatim>\<open>MaximumBatchSize / K\<close>, and no settings otherwise; a call that
  returns without an error has ended with such a send; the writer keeps its settings
  and configuration. The async settings of the writers made by \<^verbatim>\<open>NewWorker\<close> are
  \<^verbatim>\<open>async_insert = 1\<close> and \<^verbatim>\<open>wait_for_async_insert = 1\<close>, both important, and
  \<^verbatim>\<open>async_insert_busy_timeout_max_ms\<close>, whose value is the decimal numeral of the
  milliseconds of the destination's own \<^verbatim>\<open>MaximumWaitTime\<close>.
\<close>

theorem C8_insert_mode:
  fixes ops :: "('b, 'p) FlowMessageOps" and env :: "'p netenv"
  assumes "flushSingleDestination fuel K ops env hash bf dw m = Some (Returned (err, n, dw', m'))"
  shows "(\<exists>evs. dw_trace dw' = dw_trace dw @ evs
            \<and> (\<forall>a t b i s r. EvDo a t b i s r \<in> set evs \<longrightarrow>
                 s = (if uint (FlowCount ops bf) \<le> uint (MaximumBatchSize (dw_config dw)) div uint K
                      then dw_asyncSettings dw else []))
            \<and> (err = None \<longrightarrow>
                 (\<exists>a t b i. evs \<noteq> [] \<and> last evs = EvDo a t b i
                     (if uint (FlowCount ops bf) \<le> uint (MaximumBatchSize (dw_config dw)) div uint K
                      then dw_asyncSettings dw else []) None)))
         \<and> dw_asyncSettings dw' = dw_asyncSettings dw \<and> dw_config dw' = dw_config dw
         \<and> map dw_asyncSettings (w_destWriters (NewWorker c bf0 :: ('b, 'p) realWorker)) =
             map (\<lambda>d. [\<lparr>Key = ''async_insert'', Value = ''1'', Important = True\<rparr>,
                        \<lparr>Key = ''wait_for_async_insert'', Value = ''1'', Important = True\<rparr>,
                        \<lparr>Key = ''async_insert_busy_timeout_max_ms'',
                         Value = FormatUint10 (unat (Milliseconds (MaximumWaitTime (dc_config d)))),
                         Important = False\<rparr>])
               (c_destinations c)
         \<and> map dw_config (w_destWriters (NewWorker c bf0 :: ('b, 'p) realWorker)) =
             map dc_config (c_destinations c)
         \<and> (\<forall>d \<in> set (c_destinations c). 0 \<le> sint (MaximumWaitTime (dc_config d)) \<longrightarrow>
               decimalValue (FormatUint10 (unat (Milliseconds (MaximumWaitTime (dc_config d)))))
                 = nat (sint (MaximumWaitTime (dc_config d)) div 1000000))"
proof -
  let ?s = "flushSettings K ops bf dw"
  let ?ev = "\<lambda>a. EvDo a (''flows_'' @ hash @ ''_raw'')
              (ClickHouseProtoInput ops bf) (ClickHouseProtoInput ops bf) ?s None"
  from assms have r: "Retry fuel ops env hash bf ?s
      (if dw_maxRetries dw = 0 then - 1 else dw_maxRetries dw) (0, dw, m)
        = Some (Returned (err, n, dw', m'))"
    by (simp add: flushSingleDestination_def Let_def)
  from r have "grows (flushEv (ClickHouseProtoInput ops bf) (''flows_'' @ hash @ ''_raw'') ?s) dw dw'"
    by (rule Retry_grows)
  then obtain evs where tr: "dw_trace dw' = dw_trace dw @ evs"
      and good: "list_all (flushEv (ClickHouseProtoInput ops bf) (''flows_'' @ hash @ ''_raw'') ?s) evs"
      and st: "dw_asyncSettings dw' = dw_asyncSettings dw" "dw_config dw' = dw_config dw"
    by (auto simp: grows_def)
  have all: "\<forall>a t b i s r. EvDo a t b i s r \<in> set evs \<longrightarrow> s = ?s"
    using good by (auto simp: list_all_iff)
  have lastev: "\<exists>a t b i. evs \<noteq> [] \<and> last evs = EvDo a t b i ?s None" if "err = None"
  proof -
    from r that Retry_ok_last [of fuel ops env hash bf ?s _ 0 dw m n dw' m']
    obtain addr pre where p: "dw_trace dw' = pre @ [?ev addr]" "length (dw_trace dw) \<le> length pre"
      by blast
    from p(1) tr have "length (dw_trace dw @ evs) = length (pre @ [?ev addr])" by simp
    with p(2) have ne: "evs \<noteq> []" by auto
    from p(1) tr have "last (dw_trace dw @ evs) = ?ev addr" by simp
    with ne have "last evs = ?ev addr" by simp
    with ne show ?thesis by blast
  qed
  from tr all lastev have first: "\<exists>evs. dw_trace dw' = dw_trace dw @ evs
            \<and> (\<forall>a t b i s r. EvDo a t b i s r \<in> set evs \<longrightarrow> s = ?s)
            \<and> (err = None \<longrightarrow> (\<exists>a t b i. evs \<noteq> [] \<and> last evs = EvDo a t b i ?s None))"
    by blast
  have new: "map dw_asyncSettings (w_destWriters (NewWorker c bf0 :: ('b, 'p) realWorker)) =
             map (\<lambda>d. [\<lparr>Key = ''async_insert'', Value = ''1'', Important = True\<rparr>,
                        \<lparr>Key = ''wait_for_async_insert'', Value = ''1'', Important = True\<rparr>,
                        \<lparr>Key = ''async_insert_busy_timeout_max_ms'',
                         Value = FormatUint10 (unat (Milliseconds (MaximumWaitTime (dc_config d)))),
                         Important = False\<rparr>])
               (c_destinations c)"
    "map dw_config (w_destWriters (NewWorker c bf0 :: ('b, 'p) realWorker)) =
             map dc_config (c_destinations c)"
    by (simp_all add: NewWorker_def newDestinationWriter_def asyncSettingsOf_def comp_def
          del: FormatUint10.simps)
  have dec: "\<forall>d \<in> set (c_destinations c). 0 \<le> sint (MaximumWaitTime (dc_config d)) \<longrightarrow>
               decimalValue (FormatUint10 (unat (Milliseconds (MaximumWaitTime (dc_config d)))))
                 = nat (sint (MaximumWaitTime (dc_config d)) div 1000000)"
    by (intro ballI impI) (simp only: FormatUint10_value Milliseconds_nonneg)
  from first st new dec show ?thesis unfolding flushSettings_uint by (intro conjI)
qed


theorem C8_insert_mode_witness:
  "flushSingleDestination 1 10 listOps envOK ''x'' [0, 1, 2, 3, 4, 5, 6, 7, 8, 9]
     (newDestinationWriter (demoDest ''primary'' [''a''] 0 100 5000000000)) noMetrics =
   Some (Returned (None, 1,
     demoSent (demoDest ''primary'' [''a''] 0 100 5000000000) ''a'' [0, 1, 2, 3, 4, 5, 6, 7, 8, 9],
     noMetrics\<lparr>m_flows := [(''primary'', 10)], m_insertTime := [''primary'']\<rparr>))
   \<and> (\<exists>a t b i.
         last (dw_trace (demoSent (demoDest ''primary'' [''a''] 0 100 5000000000) ''a''
                  [0, 1, 2, 3, 4, 5, 6, 7, 8, 9])) =
         EvDo a t b i
           [\<lparr>Key = ''async_insert'', Value = ''1'', Important = True\<rparr>,
            \<lparr>Key = ''wait_for_async_insert'', Value = ''1'', Important = True\<rparr>,
            \<lparr>Key = ''async_insert_busy_timeout_max_ms'', Value = ''5000'', Important = False\<rparr>]
           None)
   \<and> (\<exists>dw' a t b i.
         flushSingleDestination 1 10 listOps envOK ''x'' [0, 1, 2, 3, 4, 5, 6, 7, 8, 9, 10]
           (newDestinationWriter (demoDest ''primary'' [''a''] 0 100 5000000000)) noMetrics =
         Some (Returned (None, 1, dw',
           noMetrics\<lparr>m_flows := [(''primary'', 11)], m_insertTime := [''primary'']\<rparr>))
         \<and> last (dw_trace dw') = EvDo a t b i [] None)"
proof -
  let ?D = "demoDest ''primary'' [''a''] 0 100 5000000000"
  let ?dw = "newDestinationWriter ?D :: nat list destinationWriter"
  let ?small = "[0, 1, 2, 3, 4, 5, 6, 7, 8, 9] :: nat list"
  let ?big = "[0, 1, 2, 3, 4, 5, 6, 7, 8, 9, 10] :: nat list"
  let ?async = "[\<lparr>Key = ''async_insert'', Value = ''1'', Important = True\<rparr>,
            \<lparr>Key = ''wait_for_async_insert'', Value = ''1'', Important = True\<rparr>,
            \<lparr>Key = ''async_insert_busy_timeout_max_ms'', Value = ''5000'', Important = False\<rparr>]"
  note a = C8_insert_mode [OF demo_single, where c = "demoComponent [?D]" and ?bf0.0 = "[]"]
  note s = C8_insert_mode [OF demo_single_sync, where c = "demoComponent [?D]" and ?bf0.0 = "[]"]
  have tr0: "dw_trace ?dw = []" by (simp add: newDestinationWriter_def)
  have cond_a: "uint (FlowCount listOps ?small) \<le> uint (MaximumBatchSize (dw_config ?dw)) div uint (10 :: 64 word)"
    by (simp add: listOps_def newDestinationWriter_def demoDest_def)
  have cond_s: "\<not> uint (FlowCount listOps ?big) \<le> uint (MaximumBatchSize (dw_config ?dw)) div uint (10 :: 64 word)"
    by (simp add: listOps_def newDestinationWriter_def demoDest_def)
  have ms: "FormatUint10 (unat (Milliseconds 5000000000)) = ''5000''"
    by (simp add: Milliseconds_def digit10_def char_of_def bit_iff_odd)
  from a have "map dw_asyncSettings (w_destWriters (NewWorker (demoComponent [?D]) []
                  :: (nat list, nat list) realWorker)) =
             map (\<lambda>d. [\<lparr>Key = ''async_insert'', Value = ''1'', Important = True\<rparr>,
                        \<lparr>Key = ''wait_for_async_insert'', Value = ''1'', Important = True\<rparr>,
                        \<lparr>Key = ''async_insert_busy_timeout_max_ms'',
                         Value = FormatUint10 (unat (Milliseconds (MaximumWaitTime (dc_config d)))),
                         Important = False\<rparr>])
               (c_destinations (demoComponent [?D]))"
    by (elim conjE)
  then have set: "dw_asyncSettings ?dw = ?async"
    by (simp add: NewWorker_def demoComponent_def demoDest_def ms del: FormatUint10.simps)
  from a obtain evs a1 t1 b1 i1 where
    e: "dw_trace (demoSent ?D ''a'' ?small) = dw_trace ?dw @ evs"
    and l: "last evs = EvDo a1 t1 b1 i1
             (if uint (FlowCount listOps ?small) \<le> uint (MaximumBatchSize (dw_config ?dw)) div uint (10 :: 64 word)
              then dw_asyncSettings ?dw else []) None"
    by auto
  from e l tr0 cond_a set
  have A: "\<exists>a t b i. last (dw_trace (demoSent ?D ''a'' ?small)) = EvDo a t b i ?async None"
    by simp
  let ?dws = "?dw\<lparr>dw_conn := Some ''a'', dw_options_Address := ''a'',
        dw_trace := [EvDial ''a'' None, EvPing ''a'' None, EvProtoInput, EvProtoInput,
          EvDo ''a'' ''flows_x_raw'' ?big ?big [] None]\<rparr>"
  from s obtain evs2 a2 t2 b2 i2 where
    e2: "dw_trace ?dws = dw_trace ?dw @ evs2"
    and l2: "last evs2 = EvDo a2 t2 b2 i2
             (if uint (FlowCount listOps ?big) \<le> uint (MaximumBatchSize (dw_config ?dw)) div uint (10 :: 64 word)
              then dw_asyncSettings ?dw else []) None"
    by auto
  from e2 l2 tr0 cond_s
  have "last (dw_trace ?dws) = EvDo a2 t2 b2 i2 [] None"
    by (simp only: append_Nil if_False)
  with demo_single_sync
  have B: "\<exists>dw' a t b i.
         flushSingleDestination 1 10 listOps envOK ''x'' ?big ?dw noMetrics =
         Some (Returned (None, 1, dw',
           noMetrics\<lparr>m_flows := [(''primary'', 11)], m_insertTime := [''primary'']\<rparr>))
         \<and> last (dw_trace dw') = EvDo a t b i [] None"
    by blast
  from demo_single A B show ?thesis by (intro conjI)
qed

section \<open>Retrying without a limit\<close>

text \<open>A connect that fails has done some I/O, and so has an attempt that fails.\<close>

lemma tryServers_longer:
  assumes "tryServers env perm lastErr dw = (r, dw')" and "perm \<noteq> []"
  shows "length (dw_trace dw) < length (dw_trace dw')"
proof (cases perm)
  case Nil
  with assms show ?thesis by simp
next
  case (Cons idx rest)
  let ?addr = "dw_servers dw ! idx"
  let ?dw1 = "dw\<lparr>dw_options_Address := ?addr\<rparr>"
  show ?thesis
  proof (cases "dialRes env (dw_name ?dw1) (dw_trace ?dw1) ?addr")
    case (Some e)
    with assms(1) Cons
    have "tryServers env rest (Some (IOError e)) (emit (EvDial ?addr (Some (IOError e))) ?dw1) = (r, dw')"
      by (simp add: Let_def)
    from grows_length [OF tryServers_grows [OF grows_refl this]] show ?thesis by simp
  next
    case None
    let ?dw2 = "emit (EvDial ?addr None) ?dw1"
    show ?thesis
    proof (cases "pingRes env (dw_name ?dw2) (dw_trace ?dw2) ?addr")
      case (Some e)
      let ?dw3 = "emit (EvClose ?addr) (emit (EvPing ?addr (Some (IOError e))) ?dw2)"
      from assms(1) Cons None Some
      have "tryServers env rest (Some (IOError e)) ?dw3 = (r, dw')"
        by (simp add: Let_def)
      from grows_length [OF tryServers_grows [OF grows_refl this]] show ?thesis by simp
    next
      case pn: None
      from assms(1) Cons None pn
      have "dw' = (emit (EvPing ?addr None) ?dw2)\<lparr>dw_conn := Some ?addr\<rparr>"
        by (simp add: Let_def)
      then show ?thesis by simp
    qed
  qed
qed

lemma connectDestination_longer:
  assumes "permOK env" and "connectDestination env dw = (r, dw')" and "dw_servers dw \<noteq> []"
  shows "length (dw_trace dw) < length (dw_trace dw')"
proof (cases "dw_conn dw")
  case None
  with assms(2) have t: "tryServers env (permRes env (dw_name dw) (dw_trace dw) (length (dw_servers dw)))
            None dw = (r, dw')"
    by (simp add: connectDestination_def Let_def)
  from assms(3) permOK_Nil [OF assms(1)]
  have "permRes env (dw_name dw) (dw_trace dw) (length (dw_servers dw)) \<noteq> []" by simp
  from tryServers_longer [OF t this] show ?thesis .
next
  case (Some a)
  show ?thesis
  proof (cases "pingRes env (dw_name dw) (dw_trace dw) a")
    case None
    with assms(2) Some show ?thesis
      by (auto simp: connectDestination_def Let_def)
  next
    case pf: (Some e)
    let ?dw1 = "(emit (EvClose a) (emit (EvPing a (Some (IOError e))) dw))\<lparr>dw_conn := None\<rparr>"
    from assms(2) Some pf
    have "tryServers env (permRes env (dw_name ?dw1) (dw_trace ?dw1) (length (dw_servers ?dw1)))
            None ?dw1 = (r, dw')"
      by (simp add: connectDestination_def Let_def)
    from grows_length [OF tryServers_grows [OF grows_refl this]] show ?thesis by simp
  qed
qed

lemma isConnEv_last:
  assumes "dw_trace dw' = dw_trace dw @ evs" and "list_all isConnEv evs"
      and "length (dw_trace dw) < length (dw_trace dw')"
  shows "dw_trace dw' \<noteq> [] \<and> last (dw_trace dw') \<noteq> EvBackOff"
proof -
  from assms(1,3) have ne: "evs \<noteq> []" by auto
  then have "last evs \<in> set evs" by simp
  with assms(2) have "isConnEv (last evs)" by (simp add: list_all_iff)
  then have "last evs \<noteq> EvBackOff" by auto
  with ne assms(1) show ?thesis by simp
qed

lemma operation_fails_io:
  assumes sf: "sendsFail env (dw_name dw)" and perm: "permOK env" and srv: "dw_servers dw \<noteq> []"
      and ne: "\<not> exhausted maxA a"
  obtains err dw1 phase where
    "operation ops env hash bf s maxA (a, dw, m) =
       (OpErr err, a + 1, dw1, m\<lparr>m_errors := m_errors m @ [(dw_name dw, phase)]\<rparr>)"
    "dw_name dw1 = dw_name dw" "dw_servers dw1 = dw_servers dw"
    "length (dw_trace dw) < length (dw_trace dw1)"
    "dw_trace dw1 \<noteq> []" "last (dw_trace dw1) \<noteq> EvBackOff"
proof (cases rule: operation_cases [of maxA a ops env hash bf s dw m])
  case exhausted
  with ne show ?thesis by simp
next
  case (connErr err dw1)
  note g = connectDestination_grows [OF connErr(2)]
  note l = connectDestination_longer [OF perm connErr(2) srv]
  from g obtain evs where "dw_trace dw1 = dw_trace dw @ evs" "list_all isConnEv evs"
    by (auto simp: grows_def)
  from isConnEv_last [OF this l] connErr(3) grows_name [OF g] grows_servers [OF g] l
  show ?thesis by (intro that [of err dw1 "''connect''"]) simp_all
next
  case (panic dw1)
  from connectDestination_None [OF perm panic(2)] panic(3) srv show ?thesis by simp
next
  case (sendErr dw1 addr e)
  note g = connectDestination_grows [OF sendErr(2)]
  let ?dw2 = "(emit (EvClose addr)
             (emit (EvDo addr (''flows_'' @ hash @ ''_raw'') (ClickHouseProtoInput ops bf)
                      (ClickHouseProtoInput ops bf) s (Some (IOError e)))
                (emit EvProtoInput (emit EvProtoInput dw1))))\<lparr>dw_conn := None\<rparr>"
  from sendErr(5) grows_name [OF g] grows_servers [OF g] grows_length [OF g]
  show ?thesis
    by (intro that [of "IOError e" ?dw2 "''send''"]) simp_all
next
  case (ok dw1 addr)
  note g = connectDestination_grows [OF ok(2)]
  from sf have "doRes env (dw_name dw) (dw_trace dw1 @ [EvProtoInput, EvProtoInput]) addr \<noteq> None"
    unfolding sendsFail_def by blast
  with ok(4) grows_name [OF g] show ?thesis by simp
qed

text \<open>
  Without a limit, when the context is done once the writer has \<open>k\<close> events behind it,
  wherever in an attempt or a sleep that falls: the loop returns the context's error.
\<close>

lemma Retry_cancelled_any:
  assumes "permOK env" and "maxA \<le> 0"
      and "sendsFail env (dw_name dw)" and "dw_servers dw \<noteq> []"
      and "\<forall>h. k \<le> length h \<longrightarrow> ctxDone env (dw_name dw) h"
      and "k \<le> length (dw_trace dw) + fuel" and "0 < fuel"
  shows "\<exists>n dw' m'. Retry fuel ops env hash bf s maxA (a, dw, m)
            = Some (Returned (Some ContextErr, n, dw', m'))
          \<and> a < n \<and> n \<le> a + int fuel
          \<and> ctxDone env (dw_name dw) (dw_trace dw')
          \<and> m_retriesExceeded m' = m_retriesExceeded m"
  using assms(3-7)
proof (induction fuel arbitrary: a dw m)
  case 0
  then show ?case by simp
next
  case (Suc fuel)
  from assms(2) have ne: "\<not> exhausted maxA a" by (simp add: exhausted_def)
  from operation_fails_io [OF Suc.prems(1) assms(1) Suc.prems(2) ne, of ops hash bf s m]
  obtain err dw1 phase where
    op: "operation ops env hash bf s maxA (a, dw, m) =
           (OpErr err, a + 1, dw1, m\<lparr>m_errors := m_errors m @ [(dw_name dw, phase)]\<rparr>)"
    and nm: "dw_name dw1 = dw_name dw" and sv: "dw_servers dw1 = dw_servers dw"
    and len: "length (dw_trace dw) < length (dw_trace dw1)"
    by blast
  let ?m1 = "m\<lparr>m_errors := m_errors m @ [(dw_name dw, phase)]\<rparr>"
  note unf = Retry_Suc_err [OF op, of fuel]
  show ?case
  proof (cases "ctxDone env (dw_name dw1) (dw_trace dw1)")
    case True
    with unf nm show ?thesis by simp
  next
    case nd: False
    show ?thesis
    proof (cases "ctxDone env (dw_name dw1) (dw_trace dw1 @ [EvBackOff])")
      case True
      with unf nd nm show ?thesis by simp
    next
      case False
      with nm Suc.prems(3) have "\<not> k \<le> length (dw_trace dw1 @ [EvBackOff])" by auto
      with len Suc.prems(4) have fl: "0 < fuel" "k \<le> length (dw_trace (emit EvBackOff dw1)) + fuel"
        by simp_all
      from Suc.IH [of "emit EvBackOff dw1" "a + 1" ?m1] Suc.prems(1,2,3) nm sv fl
      obtain n dw' m' where
        "Retry fuel ops env hash bf s maxA (a + 1, emit EvBackOff dw1, ?m1)
           = Some (Returned (Some ContextErr, n, dw', m'))"
        "a + 1 < n" "n \<le> a + 1 + int fuel" "ctxDone env (dw_name dw) (dw_trace dw')"
        "m_retriesExceeded m' = m_retriesExceeded m"
        by auto
      with unf nd False show ?thesis by simp
    qed
  qed
qed

text \<open>
  Without a limit, when the context is done during the I/O that follows the \<open>j\<close>-th
  sleep: \<open>j + 1\<close> attempts and \<open>j\<close> sleeps, then the context's error.
\<close>

lemma Retry_cancelled_io:
  assumes "permOK env" and "maxA \<le> 0"
      and "sendsFail env (dw_name dw)" and "dw_servers dw \<noteq> []"
      and "\<forall>h. ctxDone env (dw_name dw) h \<longleftrightarrow> j \<le> backoffs h \<and> h \<noteq> [] \<and> last h \<noteq> EvBackOff"
      and "backoffs (dw_trace dw) = i" and "i \<le> j" and "j - i < fuel"
  shows "\<exists>dw' m'. Retry fuel ops env hash bf s maxA (a, dw, m)
            = Some (Returned (Some ContextErr, a + int (j - i) + 1, dw', m'))
          \<and> backoffs (dw_trace dw') = j
          \<and> m_retriesExceeded m' = m_retriesExceeded m"
  using assms(3-8)
proof (induction fuel arbitrary: a dw m i)
  case 0
  then show ?case by simp
next
  case (Suc fuel)
  from assms(2) have ne: "\<not> exhausted maxA a" by (simp add: exhausted_def)
  from operation_fails_io [OF Suc.prems(1) assms(1) Suc.prems(2) ne, of ops hash bf s m]
  obtain err dw1 phase where
    op: "operation ops env hash bf s maxA (a, dw, m) =
           (OpErr err, a + 1, dw1, m\<lparr>m_errors := m_errors m @ [(dw_name dw, phase)]\<rparr>)"
    and nm: "dw_name dw1 = dw_name dw" and sv: "dw_servers dw1 = dw_servers dw"
    and io: "dw_trace dw1 \<noteq> []" "last (dw_trace dw1) \<noteq> EvBackOff"
    by blast
  let ?m1 = "m\<lparr>m_errors := m_errors m @ [(dw_name dw, phase)]\<rparr>"
  from operation_backoffs [OF op] Suc.prems(4) have b1: "backoffs (dw_trace dw1) = i" by simp
  note unf = Retry_Suc_err [OF op, of fuel]
  show ?case
  proof (cases "i = j")
    case True
    with Suc.prems(3) nm b1 io have "ctxDone env (dw_name dw1) (dw_trace dw1)" by simp
    with unf True b1 show ?thesis by simp
  next
    case False
    with Suc.prems(5) have lt: "i < j" by simp
    with Suc.prems(3) nm b1 have nd: "\<not> ctxDone env (dw_name dw1) (dw_trace dw1)" by simp
    from Suc.prems(3) nm have nd2: "\<not> ctxDone env (dw_name dw1) (dw_trace dw1 @ [EvBackOff])"
      by simp
    have unf': "Retry (Suc fuel) ops env hash bf s maxA (a, dw, m)
                 = Retry fuel ops env hash bf s maxA (a + 1, emit EvBackOff dw1, ?m1)"
      unfolding unf using nd nd2 by simp
    from lt Suc.prems(6) have fl: "Suc i \<le> j" "j - Suc i < fuel" by simp_all
    from Suc.IH [of "emit EvBackOff dw1" "Suc i" "a + 1" ?m1] Suc.prems(1,2,3) nm sv b1 fl
    obtain dw' m' where
      "Retry fuel ops env hash bf s maxA (a + 1, emit EvBackOff dw1, ?m1)
         = Some (Returned (Some ContextErr, a + 1 + int (j - Suc i) + 1, dw', m'))"
      "backoffs (dw_trace dw') = j"
      "m_retriesExceeded m' = m_retriesExceeded m"
      by auto
    moreover from lt have "a + 1 + int (j - Suc i) + 1 = a + int (j - i) + 1" by simp
    ultimately show ?thesis using unf' by simp
  qed
qed


text \<open>
  Claim C6. For a destination with \<^verbatim>\<open>MaxRetries = 0\<close>: \<^verbatim>\<open>flushSingleDestination\<close>
  never returns the retries-exceeded error and never increments its counter; it
  returns without an error or with the context's error. When its sends always fail:
  if the context is never done it does not return, whatever the bound on the number
  of attempts; if the context is done from the \<open>k\<close>-th sleep on, it makes exactly \<open>k\<close>
  attempts and returns the context's error; if the context is done during the I/O
  that follows the \<open>j\<close>-th sleep (a dial, a ping or a send), it makes exactly \<open>j + 1\<close>
  attempts and \<open>j\<close> sleeps and returns the context's error without sleeping again;
  and if the context is done once the writer has any number \<open>k\<close> of events behind it,
  wherever in an attempt or a sleep that falls, it returns the context's error, with
  the context done.
\<close>

theorem C6_unbounded_retry:
  fixes ops :: "('b, 'p) FlowMessageOps" and env :: "'p netenv"
  assumes "dw_maxRetries dw = 0"
  shows "(\<forall>e n dw' m'.
            flushSingleDestination fuel K ops env hash bf dw m = Some (Returned (e, n, dw', m')) \<longrightarrow>
              (e = None \<or> e = Some ContextErr) \<and> m_retriesExceeded m' = m_retriesExceeded m)
       \<and> (permOK env \<and> sendsFail env (dw_name dw) \<and> dw_servers dw \<noteq> [] \<longrightarrow>
            (ctxAlive env (dw_name dw) \<longrightarrow>
               flushSingleDestination fuel K ops env hash bf dw m = None)
          \<and> (\<forall>k. 0 < k \<and> k \<le> fuel \<and> backoffs (dw_trace dw) = 0
                  \<and> (\<forall>h. ctxDone env (dw_name dw) h \<longleftrightarrow> k \<le> backoffs h) \<longrightarrow>
                (\<exists>dw' m'. flushSingleDestination fuel K ops env hash bf dw m
                     = Some (Returned (Some ContextErr, int k, dw', m'))
                   \<and> m_retriesExceeded m' = m_retriesExceeded m))
          \<and> (\<forall>j. j < fuel \<and> backoffs (dw_trace dw) = 0
                  \<and> (\<forall>h. ctxDone env (dw_name dw) h \<longleftrightarrow>
                            j \<le> backoffs h \<and> h \<noteq> [] \<and> last h \<noteq> EvBackOff) \<longrightarrow>
                (\<exists>dw' m'. flushSingleDestination fuel K ops env hash bf dw m
                     = Some (Returned (Some ContextErr, int j + 1, dw', m'))
                   \<and> backoffs (dw_trace dw') = j
                   \<and> m_retriesExceeded m' = m_retriesExceeded m))
          \<and> (\<forall>k. 0 < fuel \<and> k \<le> length (dw_trace dw) + fuel
                  \<and> (\<forall>h. k \<le> length h \<longrightarrow> ctxDone env (dw_name dw) h) \<longrightarrow>
                (\<exists>n dw' m'. flushSingleDestination fuel K ops env hash bf dw m
                     = Some (Returned (Some ContextErr, n, dw', m'))
                   \<and> 0 < n \<and> n \<le> int fuel
                   \<and> ctxDone env (dw_name dw) (dw_trace dw')
                   \<and> m_retriesExceeded m' = m_retriesExceeded m)))"
proof (intro conjI allI impI)
  fix e n dw' m'
  assume "flushSingleDestination fuel K ops env hash bf dw m = Some (Returned (e, n, dw', m'))"
  with assms have r: "Retry fuel ops env hash bf (flushSettings K ops bf dw) (- 1) (0, dw, m)
                        = Some (Returned (e, n, dw', m'))"
    by (simp add: flushSingleDestination_def Let_def)
  have "(- 1 :: int) \<le> 0" by simp
  from Retry_unlimited [OF this r]
  show "e = None \<or> e = Some ContextErr" "m_retriesExceeded m' = m_retriesExceeded m"
    by simp_all
next
  assume h: "permOK env \<and> sendsFail env (dw_name dw) \<and> dw_servers dw \<noteq> []"
    and alive: "ctxAlive env (dw_name dw)"
  have le: "(- 1 :: int) \<le> 0" by simp
  from h alive Retry_forever [OF _ le, of env dw fuel ops hash bf "flushSettings K ops bf dw" 0 m] assms
  show "flushSingleDestination fuel K ops env hash bf dw m = None"
    by (simp add: flushSingleDestination_def Let_def)
next
  fix k
  assume h: "permOK env \<and> sendsFail env (dw_name dw) \<and> dw_servers dw \<noteq> []"
    and c: "0 < k \<and> k \<le> fuel \<and> backoffs (dw_trace dw) = 0
                  \<and> (\<forall>h. ctxDone env (dw_name dw) h \<longleftrightarrow> k \<le> backoffs h)"
  have le: "(- 1 :: int) \<le> 0" by simp
  from h have perm: "permOK env" and sf: "sendsFail env (dw_name dw)" and srv: "dw_servers dw \<noteq> []"
    by simp_all
  from c have ctx: "\<forall>h. ctxDone env (dw_name dw) h \<longleftrightarrow> k \<le> backoffs h"
    and b0: "backoffs (dw_trace dw) = 0" and k: "0 < k" "k - 0 \<le> fuel"
    by simp_all
  from Retry_cancelled [OF perm le sf srv ctx b0 k, of ops hash bf "flushSettings K ops bf dw" 0 m]
    assms
  show "\<exists>dw' m'. flushSingleDestination fuel K ops env hash bf dw m
                     = Some (Returned (Some ContextErr, int k, dw', m'))
                   \<and> m_retriesExceeded m' = m_retriesExceeded m"
    by (simp add: flushSingleDestination_def Let_def)
next
  fix j
  assume h: "permOK env \<and> sendsFail env (dw_name dw) \<and> dw_servers dw \<noteq> []"
    and c: "j < fuel \<and> backoffs (dw_trace dw) = 0
                  \<and> (\<forall>h. ctxDone env (dw_name dw) h \<longleftrightarrow>
                            j \<le> backoffs h \<and> h \<noteq> [] \<and> last h \<noteq> EvBackOff)"
  have le: "(- 1 :: int) \<le> 0" by simp
  from h have perm: "permOK env" and sf: "sendsFail env (dw_name dw)" and srv: "dw_servers dw \<noteq> []"
    by simp_all
  from c have ctx: "\<forall>h. ctxDone env (dw_name dw) h \<longleftrightarrow>
                            j \<le> backoffs h \<and> h \<noteq> [] \<and> last h \<noteq> EvBackOff"
    and b0: "backoffs (dw_trace dw) = 0" and j: "0 \<le> j" "j - 0 < fuel"
    by simp_all
  from Retry_cancelled_io [OF perm le sf srv ctx b0 j, of ops hash bf "flushSettings K ops bf dw" 0 m]
    assms
  show "\<exists>dw' m'. flushSingleDestination fuel K ops env hash bf dw m
                     = Some (Returned (Some ContextErr, int j + 1, dw', m'))
                   \<and> backoffs (dw_trace dw') = j
                   \<and> m_retriesExceeded m' = m_retriesExceeded m"
    by (simp add: flushSingleDestination_def Let_def)
next
  fix k
  assume h: "permOK env \<and> sendsFail env (dw_name dw) \<and> dw_servers dw \<noteq> []"
    and c: "0 < fuel \<and> k \<le> length (dw_trace dw) + fuel
                  \<and> (\<forall>h. k \<le> length h \<longrightarrow> ctxDone env (dw_name dw) h)"
  have le: "(- 1 :: int) \<le> 0" by simp
  from h have perm: "permOK env" and sf: "sendsFail env (dw_name dw)" and srv: "dw_servers dw \<noteq> []"
    by simp_all
  from c have ctx: "\<forall>h. k \<le> length h \<longrightarrow> ctxDone env (dw_name dw) h"
    and k: "k \<le> length (dw_trace dw) + fuel" "0 < fuel"
    by simp_all
  from Retry_cancelled_any [OF perm le sf srv ctx k, of ops hash bf "flushSettings K ops bf dw" 0 m]
    assms
  show "\<exists>n dw' m'. flushSingleDestination fuel K ops env hash bf dw m
                     = Some (Returned (Some ContextErr, n, dw', m'))
                   \<and> 0 < n \<and> n \<le> int fuel
                   \<and> ctxDone env (dw_name dw) (dw_trace dw')
                   \<and> m_retriesExceeded m' = m_retriesExceeded m"
    by (simp add: flushSingleDestination_def Let_def)
qed

lemma demo_cancel_io:
  "flushSingleDestination 1 10 listOps (envCancelIO 0) ''x'' [7] writerPrimary noMetrics =
     Some (Returned (Some ContextErr, 1,
       writerPrimary\<lparr>dw_options_Address := ''a'',
         dw_trace := [EvDial ''a'' None, EvPing ''a'' None, EvProtoInput, EvProtoInput,
           EvDo ''a'' ''flows_x_raw'' [7] [7]
             (asyncSettingsOf \<lparr>MaximumBatchSize = 100, MaximumWaitTime = 5000000000\<rparr>)
             (Some (IOError 113)),
           EvClose ''a'']\<rparr>,
       noMetrics\<lparr>m_errors := [(''primary'', ''send'')]\<rparr>))"
  by (simp add: demo_defs writerPrimary_def envCancelIO_def word_le_def)

theorem C6_unbounded_retry_witness:
  "dw_maxRetries writerPrimary = 0
   \<and> (\<exists>dw' m'. flushSingleDestination 3 10 listOps (envCancelAt 3) ''x'' [7] writerPrimary noMetrics
          = Some (Returned (Some ContextErr, 3, dw', m'))
        \<and> m_retriesExceeded m' = m_retriesExceeded noMetrics)
   \<and> (\<exists>dw' m'. flushSingleDestination 1 10 listOps (envCancelIO 0) ''x'' [7] writerPrimary noMetrics
          = Some (Returned (Some ContextErr, 1, dw', m'))
        \<and> backoffs (dw_trace dw') = 0
        \<and> m_retriesExceeded m' = m_retriesExceeded noMetrics)
   \<and> (\<exists>n dw' m'. flushSingleDestination 5 10 listOps (envCancelLen 5) ''x'' [7] writerPrimary noMetrics
          = Some (Returned (Some ContextErr, n, dw', m'))
        \<and> 0 < n \<and> n \<le> 5)
   \<and> flushSingleDestination 1 10 listOps (envCancelIO 0) ''x'' [7] writerPrimary noMetrics =
     Some (Returned (Some ContextErr, 1,
       writerPrimary\<lparr>dw_options_Address := ''a'',
         dw_trace := [EvDial ''a'' None, EvPing ''a'' None, EvProtoInput, EvProtoInput,
           EvDo ''a'' ''flows_x_raw'' [7] [7]
             (asyncSettingsOf \<lparr>MaximumBatchSize = 100, MaximumWaitTime = 5000000000\<rparr>)
             (Some (IOError 113)),
           EvClose ''a'']\<rparr>,
       noMetrics\<lparr>m_errors := [(''primary'', ''send'')]\<rparr>))"
proof -
  have h: "dw_maxRetries writerPrimary = 0"
    by (simp add: writerPrimary_def newDestinationWriter_def demoDest_def)
  have wp: "dw_name writerPrimary = ''primary''" "dw_servers writerPrimary \<noteq> []"
    "dw_trace writerPrimary = []"
    by (simp_all add: writerPrimary_def newDestinationWriter_def demoDest_def)
  have env1: "permOK (envCancelAt 3 :: nat list netenv)
       \<and> sendsFail (envCancelAt 3 :: nat list netenv) (dw_name writerPrimary)
       \<and> dw_servers writerPrimary \<noteq> []"
    using wp by (simp add: envCancelAt_def permOK_def sendsFail_def)
  have c1: "0 < (3::nat) \<and> (3::nat) \<le> 3 \<and> backoffs (dw_trace writerPrimary) = 0
       \<and> (\<forall>h. ctxDone (envCancelAt 3 :: nat list netenv) (dw_name writerPrimary) h \<longleftrightarrow> 3 \<le> backoffs h)"
    using wp by (simp add: envCancelAt_def)
  from C6_unbounded_retry [OF h, where fuel = 3 and K = 10 and ops = listOps and env = "envCancelAt 3"
      and hash = "''x''" and bf = "[7]" and m = noMetrics] env1 c1
  have "\<exists>dw' m'. flushSingleDestination 3 10 listOps (envCancelAt 3) ''x'' [7] writerPrimary noMetrics
          = Some (Returned (Some ContextErr, int 3, dw', m'))
        \<and> m_retriesExceeded m' = m_retriesExceeded noMetrics"
    by blast
  then have A: "\<exists>dw' m'. flushSingleDestination 3 10 listOps (envCancelAt 3) ''x'' [7] writerPrimary noMetrics
          = Some (Returned (Some ContextErr, 3, dw', m'))
        \<and> m_retriesExceeded m' = m_retriesExceeded noMetrics"
    by simp
  have env2: "permOK (envCancelIO 0 :: nat list netenv)
       \<and> sendsFail (envCancelIO 0 :: nat list netenv) (dw_name writerPrimary)
       \<and> dw_servers writerPrimary \<noteq> []"
    using wp by (simp add: envCancelIO_def permOK_def sendsFail_def)
  have c2: "(0::nat) < 1 \<and> backoffs (dw_trace writerPrimary) = 0
       \<and> (\<forall>h. ctxDone (envCancelIO 0 :: nat list netenv) (dw_name writerPrimary) h \<longleftrightarrow>
              0 \<le> backoffs h \<and> h \<noteq> [] \<and> last h \<noteq> EvBackOff)"
    using wp by (simp add: envCancelIO_def)
  from C6_unbounded_retry [OF h, where fuel = 1 and K = 10 and ops = listOps and env = "envCancelIO 0"
      and hash = "''x''" and bf = "[7]" and m = noMetrics] env2 c2
  have "\<exists>dw' m'. flushSingleDestination 1 10 listOps (envCancelIO 0) ''x'' [7] writerPrimary noMetrics
          = Some (Returned (Some ContextErr, int 0 + 1, dw', m'))
        \<and> backoffs (dw_trace dw') = 0
        \<and> m_retriesExceeded m' = m_retriesExceeded noMetrics"
    by blast
  then have B: "\<exists>dw' m'. flushSingleDestination 1 10 listOps (envCancelIO 0) ''x'' [7] writerPrimary noMetrics
          = Some (Returned (Some ContextErr, 1, dw', m'))
        \<and> backoffs (dw_trace dw') = 0
        \<and> m_retriesExceeded m' = m_retriesExceeded noMetrics"
    by simp
  have env3: "permOK (envCancelLen 5 :: nat list netenv)
       \<and> sendsFail (envCancelLen 5 :: nat list netenv) (dw_name writerPrimary)
       \<and> dw_servers writerPrimary \<noteq> []"
    using wp by (simp add: envCancelLen_def permOK_def sendsFail_def)
  have c3: "(0::nat) < 5 \<and> 5 \<le> length (dw_trace writerPrimary) + 5
       \<and> (\<forall>h. 5 \<le> length h \<longrightarrow> ctxDone (envCancelLen 5 :: nat list netenv) (dw_name writerPrimary) h)"
    using wp by (simp add: envCancelLen_def)
  from C6_unbounded_retry [OF h, where fuel = 5 and K = 10 and ops = listOps and env = "envCancelLen 5"
      and hash = "''x''" and bf = "[7]" and m = noMetrics] env3 c3
  have "\<exists>n dw' m'. flushSingleDestination 5 10 listOps (envCancelLen 5) ''x'' [7] writerPrimary noMetrics
          = Some (Returned (Some ContextErr, n, dw', m'))
        \<and> 0 < n \<and> n \<le> int 5
        \<and> ctxDone (envCancelLen 5 :: nat list netenv) (dw_name writerPrimary) (dw_trace dw')
        \<and> m_retriesExceeded m' = m_retriesExceeded noMetrics"
    by blast
  then have C: "\<exists>n dw' m'. flushSingleDestination 5 10 listOps (envCancelLen 5) ''x'' [7] writerPrimary noMetrics
          = Some (Returned (Some ContextErr, n, dw', m'))
        \<and> 0 < n \<and> n \<le> 5"
    by auto
  from h A B C demo_cancel_io show ?thesis by (intro conjI)
qed

section \<open>Connecting and failing over\<close>

lemma specEvents_simps [simp]:
  "specEvents [] = []" "specEvents ((a, t) # log) = attemptEvents a t @ specEvents log"
  by (simp_all add: specEvents_def)

lemma connectSpec_prefix: "map fst (connectSpec env n h order) = take (length (connectSpec env n h order)) order"
  by (induction order arbitrary: h) (auto split: option.splits)

lemma connectSpec_butlast:
  "x \<in> set (butlast (connectSpec env n h order)) \<Longrightarrow> snd x \<noteq> Connected"
  by (induction order arbitrary: h) (auto split: option.splits if_splits)

lemma connectSpec_all_tried:
  "connectSpec env n h order \<noteq> [] \<Longrightarrow> snd (last (connectSpec env n h order)) \<noteq> Connected \<Longrightarrow>
   length (connectSpec env n h order) = length order"
proof (induction order arbitrary: h)
  case Nil
  then show ?case by simp
next
  case (Cons a as)
  show ?case
  proof (cases as)
    case Nil
    with Cons.prems show ?thesis by (auto split: option.splits)
  next
    case (Cons b bs)
    then have ne: "\<And>h. connectSpec env n h as \<noteq> []" by (auto split: option.splits)
    with Cons.prems Cons.IH show ?thesis by (auto split: option.splits)
  qed
qed

lemma connectSpec_Nil: "connectSpec env n h order = [] \<longleftrightarrow> order = []"
  by (cases order) (auto split: option.splits)

text \<open>The loop of \<^verbatim>\<open>connectDestination\<close> does what \<open>connectSpec\<close> says.\<close>

lemma tryServers_spec:
  assumes "tryServers env perm lastErr dw = (r, dw')"
  shows "dw_trace dw' = dw_trace dw
           @ specEvents (connectSpec env (dw_name dw) (dw_trace dw) (map ((!) (dw_servers dw)) perm))
       \<and> r = (if perm = [] then lastErr
              else specResult (connectSpec env (dw_name dw) (dw_trace dw) (map ((!) (dw_servers dw)) perm)))
       \<and> dw_conn dw' =
           (if r = None \<and> perm \<noteq> []
            then specConn (connectSpec env (dw_name dw) (dw_trace dw) (map ((!) (dw_servers dw)) perm))
            else dw_conn dw)"
  using assms
proof (induction perm arbitrary: lastErr dw)
  case Nil
  then show ?case by simp
next
  case (Cons idx rest)
  let ?a = "dw_servers dw ! idx"
  let ?dw1 = "dw\<lparr>dw_options_Address := ?a\<rparr>"
  show ?case
  proof (cases "dialRes env (dw_name dw) (dw_trace dw) ?a")
    case (Some e)
    let ?dw2 = "emit (EvDial ?a (Some (IOError e))) ?dw1"
    from Cons.prems Some
    have t: "tryServers env rest (Some (IOError e)) ?dw2 = (r, dw')" by (simp add: Let_def)
    note ih = Cons.IH [OF t]
    show ?thesis
    proof (cases rest)
      case Nil
      with t Some show ?thesis by (auto simp: specResult_def)
    next
      case (Cons i2 r2)
      then have ne: "rest \<noteq> []" by simp
      have ne': "connectSpec env (dw_name dw) (dw_trace dw @ [EvDial ?a (Some (IOError e))])
                   (map ((!) (dw_servers dw)) rest) \<noteq> []"
        using ne by (simp add: connectSpec_Nil)
      from ih ne ne' Some show ?thesis
        by (simp add: specResult_def specConn_def)
    qed
  next
    case None
    let ?dw2 = "emit (EvDial ?a None) ?dw1"
    show ?thesis
    proof (cases "pingRes env (dw_name dw) (dw_trace dw @ [EvDial ?a None]) ?a")
      case pn: None
      with Cons.prems None show ?thesis
        by (auto simp: Let_def specResult_def specConn_def)
    next
      case (Some e)
      let ?dw3 = "emit (EvClose ?a) (emit (EvPing ?a (Some (IOError e))) ?dw2)"
      from Cons.prems None Some
      have t: "tryServers env rest (Some (IOError e)) ?dw3 = (r, dw')" by (simp add: Let_def)
      note ih = Cons.IH [OF t]
      show ?thesis
      proof (cases rest)
        case Nil
        with t None Some show ?thesis by (auto simp: specResult_def)
      next
        case (Cons i2 r2)
        then have ne: "rest \<noteq> []" by simp
        have ne': "connectSpec env (dw_name dw)
                     (dw_trace dw @ [EvDial ?a None, EvPing ?a (Some (IOError e)), EvClose ?a])
                     (map ((!) (dw_servers dw)) rest) \<noteq> []"
          using ne by (simp add: connectSpec_Nil)
        from ih ne ne' None Some show ?thesis
          by (simp add: specResult_def specConn_def)
      qed
    qed
  qed
qed

lemma perm_order:
  assumes "distinct p" and "set p = {0..<length xs}"
  shows "mset (map ((!) xs) p) = mset xs"
proof -
  have "mset p = mset_set {0..<length xs}"
    using assms mset_set_set [of p] by simp
  then have "mset p = mset [0..<length xs]" by simp
  then have "mset (map ((!) xs) p) = mset (map ((!) xs) [0..<length xs])"
    by (metis mset_map)
  then show ?thesis by (simp add: map_nth)
qed

lemma fresh_spec:
  assumes "dw_conn dwX = None" and "tryServers env perm None dwX = (r, dw')"
  shows "r = specResult (connectSpec env (dw_name dwX) (dw_trace dwX) (map ((!) (dw_servers dwX)) perm))
       \<and> dw_trace dw' = dw_trace dwX
            @ specEvents (connectSpec env (dw_name dwX) (dw_trace dwX) (map ((!) (dw_servers dwX)) perm))
       \<and> dw_conn dw' = specConn (connectSpec env (dw_name dwX) (dw_trace dwX) (map ((!) (dw_servers dwX)) perm))"
proof -
  let ?log = "connectSpec env (dw_name dwX) (dw_trace dwX) (map ((!) (dw_servers dwX)) perm)"
  note sp = tryServers_spec [OF assms(2)]
  show ?thesis
  proof (cases "perm = []")
    case True
    with sp assms(1) show ?thesis by (simp add: specResult_def specConn_def)
  next
    case False
    then have ne: "?log \<noteq> []" by (simp add: connectSpec_Nil)
    from sp False have r: "r = specResult ?log" and tr: "dw_trace dw' = dw_trace dwX @ specEvents ?log"
      by simp_all
    have "dw_conn dw' = specConn ?log"
    proof (cases r)
      case None
      with sp False show ?thesis by simp
    next
      case (Some e)
      with r ne have "snd (last ?log) \<noteq> Connected"
        by (auto simp: specResult_def)
      with sp False Some assms(1) show ?thesis by (simp add: specConn_def)
    qed
    with r tr show ?thesis by simp
  qed
qed

text \<open>
  Claim C7. For every call of \<^verbatim>\<open>connectDestination\<close>, with \<^verbatim>\<open>rand.Perm\<close> returning a
  permutation: if there is a live connection and its probe succeeds, the call returns
  no error and the writer has only made that probe (no dial). Otherwise (no
  connection, or a probe that failed and was followed by a close) the servers are
  attempted in the order of the permutation, which is a rearrangement of the server
  list; the result, the events and the connection of the call are those of
  \<open>connectSpec\<close>: every attempt is a dial followed by a probe, every attempt before
  the last has failed, a last attempt that connected gives the live connection, and
  when the last attempt failed every server was attempted and its error is returned.
\<close>

theorem C7_connect:
  fixes env :: "'p netenv" and dw :: "'p destinationWriter"
  assumes "permOK env"
  shows "(\<forall>a. dw_conn dw = Some a \<and> pingRes env (dw_name dw) (dw_trace dw) a = None \<longrightarrow>
            connectDestination env dw = (None, emit (EvPing a None) dw))
       \<and> (\<forall>h0. (dw_conn dw = None \<and> h0 = dw_trace dw
                 \<or> (\<exists>a e. dw_conn dw = Some a \<and> pingRes env (dw_name dw) (dw_trace dw) a = Some e
                        \<and> h0 = dw_trace dw @ [EvPing a (Some (IOError e)), EvClose a])) \<longrightarrow>
            (let order = map ((!) (dw_servers dw))
                           (permRes env (dw_name dw) h0 (length (dw_servers dw)));
                 log = connectSpec env (dw_name dw) h0 order
             in mset order = mset (dw_servers dw)
              \<and> (\<exists>dw'. connectDestination env dw = (specResult log, dw')
                     \<and> dw_trace dw' = h0 @ specEvents log \<and> dw_conn dw' = specConn log)
              \<and> map fst log = take (length log) order
              \<and> (\<forall>x \<in> set (butlast log). snd x \<noteq> Connected)
              \<and> (log \<noteq> [] \<and> snd (last log) \<noteq> Connected \<longrightarrow> length log = length order)))"
proof (intro conjI allI impI)
  fix a
  assume "dw_conn dw = Some a \<and> pingRes env (dw_name dw) (dw_trace dw) a = None"
  then show "connectDestination env dw = (None, emit (EvPing a None) dw)"
    by (simp add: connectDestination_def Let_def)
next
  fix h0
  assume h: "dw_conn dw = None \<and> h0 = dw_trace dw
                 \<or> (\<exists>a e. dw_conn dw = Some a \<and> pingRes env (dw_name dw) (dw_trace dw) a = Some e
                        \<and> h0 = dw_trace dw @ [EvPing a (Some (IOError e)), EvClose a])"
  let ?perm = "permRes env (dw_name dw) h0 (length (dw_servers dw))"
  let ?order = "map ((!) (dw_servers dw)) ?perm"
  let ?log = "connectSpec env (dw_name dw) h0 ?order"
  from assms have "distinct ?perm" "set ?perm = {0..<length (dw_servers dw)}"
    by (simp_all add: permOK_def)
  then have ms: "mset ?order = mset (dw_servers dw)" by (rule perm_order)
  obtain dwX where x: "dw_conn dwX = None" "dw_trace dwX = h0" "dw_name dwX = dw_name dw"
      "dw_servers dwX = dw_servers dw"
      and c: "connectDestination env dw = tryServers env ?perm None dwX"
  proof (cases "dw_conn dw")
    case None
    with h have "h0 = dw_trace dw" by auto
    with None show ?thesis
      by (intro that [of dw]) (simp_all add: connectDestination_def Let_def)
  next
    case (Some a)
    with h obtain e where p: "pingRes env (dw_name dw) (dw_trace dw) a = Some e"
      and h0: "h0 = dw_trace dw @ [EvPing a (Some (IOError e)), EvClose a]"
      by auto
    let ?dwX = "(emit (EvClose a) (emit (EvPing a (Some (IOError e))) dw))\<lparr>dw_conn := None\<rparr>"
    from Some p h0 show ?thesis
      by (intro that [of ?dwX]) (simp_all add: connectDestination_def Let_def)
  qed
  obtain r dw' where t: "tryServers env ?perm None dwX = (r, dw')"
    by (cases "tryServers env ?perm None dwX")
  from fresh_spec [OF x(1) t] x c t
  have ex: "\<exists>dw'. connectDestination env dw = (specResult ?log, dw')
                     \<and> dw_trace dw' = h0 @ specEvents ?log \<and> dw_conn dw' = specConn ?log"
    by simp
  have p2: "\<forall>x \<in> set (butlast ?log). snd x \<noteq> Connected"
    using connectSpec_butlast by blast
  have p3: "?log \<noteq> [] \<and> snd (last ?log) \<noteq> Connected \<longrightarrow> length ?log = length ?order"
    using connectSpec_all_tried by blast
  from ms ex connectSpec_prefix [of env "dw_name dw" h0 ?order] p2 p3
  show "let order = map ((!) (dw_servers dw))
                           (permRes env (dw_name dw) h0 (length (dw_servers dw)));
                 log = connectSpec env (dw_name dw) h0 order
             in mset order = mset (dw_servers dw)
              \<and> (\<exists>dw'. connectDestination env dw = (specResult log, dw')
                     \<and> dw_trace dw' = h0 @ specEvents log \<and> dw_conn dw' = specConn log)
              \<and> map fst log = take (length log) order
              \<and> (\<forall>x \<in> set (butlast log). snd x \<noteq> Connected)
              \<and> (log \<noteq> [] \<and> snd (last log) \<noteq> Connected \<longrightarrow> length log = length order)"
    unfolding Let_def by blast
qed

lemma permOK_envFailover: "permOK envFailover"
  by (simp add: permOK_def envFailover_def)

lemma writer3_log:
  "connectSpec (envFailover :: nat list netenv) (dw_name writer3) (dw_trace writer3)
     (map ((!) (dw_servers writer3))
        (permRes (envFailover :: nat list netenv) (dw_name writer3) (dw_trace writer3)
           (length (dw_servers writer3))))
   = [(''s1'', DialFailed (IOError 101)), (''s2'', DialFailed (IOError 101)), (''s3'', Connected)]"
  by (simp add: writer3_def newDestinationWriter_def demoDest_def envFailover_def upt_rec)

theorem C7_connect_witness:
  "permOK (envFailover :: nat list netenv)
   \<and> (\<exists>dw'. connectDestination envFailover writer3 = (None, dw')
          \<and> dw_trace dw' = [EvDial ''s1'' (Some (IOError 101)), EvDial ''s2'' (Some (IOError 101)),
                             EvDial ''s3'' None, EvPing ''s3'' None]
          \<and> dw_conn dw' = Some ''s3'')
   \<and> connectDestination envFailover writer3_connected
        = (None, emit (EvPing ''s3'' None) writer3_connected)"
proof -
  note inst = C7_connect [OF permOK_envFailover, where dw = writer3]
  have c0: "dw_conn writer3 = None \<and> dw_trace writer3 = dw_trace writer3
       \<or> (\<exists>a e. dw_conn writer3 = Some a
            \<and> pingRes (envFailover :: nat list netenv) (dw_name writer3) (dw_trace writer3) a = Some e
            \<and> dw_trace writer3 = dw_trace writer3 @ [EvPing a (Some (IOError e)), EvClose a])"
    by (simp add: writer3_def newDestinationWriter_def)
  from inst [THEN conjunct2, rule_format, OF c0]
  have a: "\<exists>dw'. connectDestination envFailover writer3 = (None, dw')
          \<and> dw_trace dw' = [EvDial ''s1'' (Some (IOError 101)), EvDial ''s2'' (Some (IOError 101)),
                             EvDial ''s3'' None, EvPing ''s3'' None]
          \<and> dw_conn dw' = Some ''s3''"
    unfolding Let_def writer3_log
    by (simp add: specResult_def specConn_def writer3_def newDestinationWriter_def)
  have c1: "dw_conn writer3_connected = Some ''s3''
       \<and> pingRes (envFailover :: nat list netenv) (dw_name writer3_connected)
            (dw_trace writer3_connected) ''s3'' = None"
    by (simp add: writer3_connected_def envFailover_def)
  from C7_connect [OF permOK_envFailover, where dw = writer3_connected, THEN conjunct1, rule_format, OF c1]
  have b: "connectDestination envFailover writer3_connected
        = (None, emit (EvPing ''s3'' None) writer3_connected)" .
  from permOK_envFailover a b show ?thesis by blast
qed

end
